theory Spec2Isabelle
  imports Main "HOL-Library.Word" "HOL-Library.AList"
begin

section \<open>Errors\<close>

text \<open>
  The error values of the package (errors.go), the errors built with \<open>fmt.Errorf\<close> in
  parser.go, the \<open>*strconv.NumError\<close> of the number parsers and the aggregate of
  \<open>errors.Join\<close>.  A Go \<open>error\<close> that may be nil is an \<open>error option\<close>.
\<close>

datatype numerr = ErrSyntax | ErrRange

datatype error =
    ErrInvalidEnviron
  | ErrInvalidValue
  | ErrUnsupportedType
  | FieldNotExported string
  | RequiredNotFound string
  | InvalidMapEntry string
  | NumError string string numerr
  | ErrorString string
  | JoinError "error list"

text \<open>\<open>errors.Join\<close>: nil when every argument is nil, otherwise a join of the non-nil ones.\<close>

definition Join :: "error option list \<Rightarrow> error option" where
  "Join errs = (case List.map_filter id errs of [] \<Rightarrow> None | es \<Rightarrow> Some (JoinError es))"

text \<open>The errors an aggregate enumerates: the leaves of the tree of joins.\<close>

fun leaves :: "error \<Rightarrow> error list" where
  "leaves (JoinError es) = concat (map leaves es)"
| "leaves e = [e]"

definition leaves_of :: "error option \<Rightarrow> error set" where
  "leaves_of r = (case r of None \<Rightarrow> {} | Some e \<Rightarrow> set (leaves e))"

section \<open>Strings\<close>

text \<open>
  A Go string is a sequence of bytes, here \<open>string\<close>.  The functions of package
  \<open>strings\<close> that parser.go calls are modelled on bytes; where Go decodes UTF-8
  (splitting on the empty separator) the decoder of \<open>utf8.DecodeRuneInString\<close> is
  written out.
\<close>

definition HasPrefix :: "string \<Rightarrow> string \<Rightarrow> bool" where
  "HasPrefix s p = (take (length p) s = p)"

fun Index :: "string \<Rightarrow> string \<Rightarrow> nat option" where
  "Index [] sep = (if sep = [] then Some 0 else None)"
| "Index (c # cs) sep =
     (if HasPrefix (c # cs) sep then Some 0 else map_option Suc (Index cs sep))"

definition byte :: "string \<Rightarrow> nat \<Rightarrow> nat" where
  "byte s i = (if i < length s then of_char (s ! i) else 0)"

definition runeLen :: "string \<Rightarrow> nat" where
  "runeLen s =
     (if s = [] then 0
      else let b0 = byte s 0 in
        if b0 < 0xC2 \<or> 0xF4 < b0 then 1
        else
          let sz = (if b0 < 0xE0 then 2 else if b0 < 0xF0 then 3 else 4 :: nat);
              lo = (if b0 = 0xE0 then 0xA0 else if b0 = 0xF0 then 0x90 else 0x80 :: nat);
              hi = (if b0 = 0xED then 0x9F else if b0 = 0xF4 then 0x8F else 0xBF :: nat)
          in if length s < sz then 1
             else if byte s 1 < lo \<or> hi < byte s 1 then 1
             else if sz \<le> 2 then 2
             else if byte s 2 < 0x80 \<or> 0xBF < byte s 2 then 1
             else if sz \<le> 3 then 3
             else if byte s 3 < 0x80 \<or> 0xBF < byte s 3 then 1
             else 4)"

lemma runeLen_pos: "s \<noteq> [] \<Longrightarrow> 0 < runeLen s"
  by (simp add: runeLen_def Let_def)

function explode :: "string \<Rightarrow> string list" where
  "explode s = (if s = [] then [] else take (runeLen s) s # explode (drop (runeLen s) s))"
  by pat_completeness auto
termination
  by (relation "measure length") (auto simp: runeLen_pos)

declare explode.simps [simp del]

text \<open>
  The loop of \<open>genSplit\<close>: at most \<open>n\<close> cuts, each at the first occurrence of the
  (non-empty) separator, stopping early when there is none.
\<close>

fun splitLoop :: "nat \<Rightarrow> string \<Rightarrow> string \<Rightarrow> string list" where
  "splitLoop 0 s sep = [s]"
| "splitLoop (Suc n) s sep =
     (case Index s sep of
        None \<Rightarrow> [s]
      | Some m \<Rightarrow> take m s # splitLoop n (drop (m + length sep) s) sep)"

definition explodeN :: "nat \<Rightarrow> string \<Rightarrow> string list" where
  "explodeN n s =
     (let rs = explode s; m = min n (length rs)
      in if m = 0 then [] else take (m - 1) rs @ [concat (drop (m - 1) rs)])"

text \<open>\<open>strings.SplitN(s, sep, n)\<close> for \<open>n \<ge> 0\<close>, and \<open>strings.Split(s, sep)\<close>.\<close>

definition SplitN :: "string \<Rightarrow> string \<Rightarrow> nat \<Rightarrow> string list" where
  "SplitN s sep n =
     (if n = 0 then []
      else if sep = [] then explodeN n s
      else splitLoop (min n (length s + 1) - 1) s sep)"

definition Split :: "string \<Rightarrow> string \<Rightarrow> string list" where
  "Split s sep = (if sep = [] then explode s else splitLoop (length s) s sep)"

fun replaceLoop :: "nat \<Rightarrow> string \<Rightarrow> string \<Rightarrow> string \<Rightarrow> string" where
  "replaceLoop 0 s old new = s"
| "replaceLoop (Suc n) s old new =
     (case Index s old of
        None \<Rightarrow> s
      | Some j \<Rightarrow> take j s @ new @ replaceLoop n (drop (j + length old) s) old new)"

definition ReplaceAll :: "string \<Rightarrow> string \<Rightarrow> string \<Rightarrow> string" where
  "ReplaceAll s old new =
     (if old = [] then new @ concat (map (\<lambda>r. r @ new) (explode s))
      else replaceLoop (length s) s old new)"

definition isASCII :: "string \<Rightarrow> bool" where
  "isASCII s = (\<forall>c \<in> set s. (of_char c :: nat) < 0x80)"

definition lowerByte :: "char \<Rightarrow> char" where
  "lowerByte c =
     (if (0x41::nat) \<le> of_char c \<and> of_char c \<le> (0x5A::nat)
      then char_of (of_char c + (0x20::nat)) else c)"

definition asciiSpace :: "char \<Rightarrow> bool" where
  "asciiSpace c = ((of_char c :: nat) \<in> {0x09, 0x0A, 0x0B, 0x0C, 0x0D, 0x20})"

text \<open>\<open>strings.TrimRight(s, cutset)\<close> for a cutset of ASCII bytes (the call site passes "\r").\<close>

definition TrimRight :: "string \<Rightarrow> string \<Rightarrow> string" where
  "TrimRight s cutset = rev (dropWhile (\<lambda>c. c \<in> set cutset) (rev s))"

section \<open>Types and values, as reflection shows them\<close>

text \<open>
  A declared type is what \<open>set\<close> tells apart: the kind, the element type of a pointer,
  sequence or mapping (and the key type of a mapping), and whether the type is
  \<open>time.Duration\<close>.  \<open>TOther\<close> is a type of any kind \<open>set\<close> has no case for (Struct,
  Array, Chan, Func, Interface, Complex64, Complex128, Uintptr, UnsafePointer).  A
  defined type other than \<open>time.Duration\<close> stands as the type it is defined from, which
  is how \<open>set\<close> treats it, with one exception that has no type here: a sequence whose
  element type is a defined type of kind String.  For it \<open>set\<close> hands the \<open>[]string\<close> of
  the parts to \<open>reflect.Value.Set\<close>, which panics, the types not being assignable.
  So the element type of \<open>TSlice TString\<close> is the predeclared \<open>string\<close>, and no
  statement below is about a field whose type has the excepted type in it.

  An integer value is the number it holds (\<open>VInt\<close> for the signed kinds and for
  durations, \<open>VUint\<close> for the unsigned ones), a float the bits of a float64; a nil
  pointer, sequence or mapping is \<open>None\<close>.  A mapping is the list of its entries, one
  per key; Go's maps have no order, and only \<open>map_of\<close> of the list is meant.  \<open>VOther\<close> is
  a value of a type \<open>TOther\<close>.

  A record value is the list of its fields in declaration order.  A field holds what
  \<open>reflect\<close> tells of it: its name, whether it is exported (an exported field of an
  addressable record can be set and its address can be taken as an interface; an
  unexported one can do neither), its struct tag as the list of its key/value pairs, and
  its content: a field of kind Struct holds the fields of the embedded record, any other
  field its declared type and its current value.  The argument \<open>v interface{}\<close> of the
  entry points is no pointer (or nil), a nil pointer, or a pointer to some content.
\<close>

datatype gtype =
    TString | TBool | TFloat32 | TFloat64
  | TInt | TInt8 | TInt16 | TInt32 | TInt64
  | TDuration
  | TUint | TUint8 | TUint16 | TUint32 | TUint64
  | TPtr gtype
  | TSlice gtype
  | TMap gtype gtype
  | TOther

datatype gval =
    VString string
  | VBool bool
  | VFloat "64 word"
  | VInt int
  | VUint nat
  | VPtr "gval option"
  | VSlice "gval list option"
  | VMap "(string \<times> gval) list option"
  | VOther

datatype sfield =
    SField (Name: string) (Exported: bool) (StructTag: "(string \<times> string) list")
           (Content: content)
and content =
    Leaf gtype gval
  | Struct "sfield list"

datatype iface = NonPointer | NilPointer | Pointer content

section \<open>The world a call runs in\<close>

text \<open>
  Everything a call reads besides its arguments: the package variables \<open>Tag\<close>,
  \<open>Separator\<close> and \<open>validator\<close> (a validator is the function its \<open>Struct\<close> method
  computes); the operating system (\<open>os.Environ\<close>, \<open>os.ReadFile\<close>); and the parts of
  the standard library that are taken as given: \<open>strconv.IntSize\<close>,
  \<open>strconv.ParseFloat\<close> (the result as the bits of the float64), \<open>time.ParseDuration\<close>
  (nanoseconds), and the Unicode paths of \<open>strings.ToLower\<close> and \<open>strings.TrimSpace\<close> on
  a string that is not ASCII: \<open>strings.Map(unicode.ToLower, s)\<close>,
  \<open>strings.TrimFunc(s, unicode.IsSpace)\<close> and \<open>strings.TrimRightFunc(s, unicode.IsSpace)\<close>.
\<close>

record world =
  Tag :: string
  Separator :: string
  validator :: "(iface \<Rightarrow> error option) option"
  os_Environ :: "string list"
  os_ReadFile :: "string \<Rightarrow> error + string"
  strconv_IntSize :: nat
  strconv_ParseFloat :: "string \<Rightarrow> nat \<Rightarrow> error + 64 word"
  time_ParseDuration :: "string \<Rightarrow> error + int"
  unicode_ToLower :: "string \<Rightarrow> string"
  unicode_TrimSpace :: "string \<Rightarrow> string"
  unicode_TrimRightSpace :: "string \<Rightarrow> string"

definition ToLower :: "world \<Rightarrow> string \<Rightarrow> string" where
  "ToLower W s = (if isASCII s then map lowerByte s else unicode_ToLower W s)"

text \<open>
  \<open>strings.TrimSpace\<close>: ASCII space is cut from the left, then from the right; at the first
  byte that is not ASCII the rest is handed to the Unicode-aware trimming.
\<close>

fun trimSpaceRight :: "world \<Rightarrow> string \<Rightarrow> string" where
  "trimSpaceRight W [] = []"
| "trimSpaceRight W (c # cs) =
     (if 0x80 \<le> (of_char c :: nat) then unicode_TrimRightSpace W (rev (c # cs))
      else if asciiSpace c then trimSpaceRight W cs
      else rev (c # cs))"

fun TrimSpace :: "world \<Rightarrow> string \<Rightarrow> string" where
  "TrimSpace W [] = []"
| "TrimSpace W (c # cs) =
     (if 0x80 \<le> (of_char c :: nat) then unicode_TrimSpace W (c # cs)
      else if asciiSpace c then TrimSpace W cs
      else trimSpaceRight W (rev (c # cs)))"

section \<open>Reading entries\<close>

text \<open>\<open>EnvironToMap\<close>: the loop over the entries, the map built so far as accumulator.\<close>

fun environLoop :: "(string \<rightharpoonup> string) \<Rightarrow> string list \<Rightarrow> error + (string \<rightharpoonup> string)" where
  "environLoop m [] = Inr m"
| "environLoop m (s # env) =
     (case SplitN s ''='' 2 of
        [k, v] \<Rightarrow> environLoop (m(k \<mapsto> v)) env
      | _ \<Rightarrow> Inl ErrInvalidEnviron)"

definition EnvironToMap :: "string list \<Rightarrow> error + (string \<rightharpoonup> string)" where
  "EnvironToMap env = environLoop Map.empty env"

fun envFileLoop :: "world \<Rightarrow> string list \<Rightarrow> string list" where
  "envFileLoop W [] = []"
| "envFileLoop W (line0 # lines) =
     (let line1 = TrimRight line0 [CHR 0x0D];
          line2 = TrimSpace W line1
      in if line2 = [] then envFileLoop W lines
         else if HasPrefix line2 ''#'' then envFileLoop W lines
         else line2 # envFileLoop W lines)"

definition parseEnvFile :: "world \<Rightarrow> string \<Rightarrow> string list" where
  "parseEnvFile W data = envFileLoop W (Split data [CHR 0x0A])"

section \<open>Package strconv\<close>

definition ParseBool :: "string \<Rightarrow> error + bool" where
  "ParseBool str =
     (if str \<in> set [''1'', ''t'', ''T'', ''TRUE'', ''true'', ''True''] then Inr True
      else if str \<in> set [''0'', ''f'', ''F'', ''FALSE'', ''false'', ''False''] then Inr False
      else Inl (NumError ''ParseBool'' str ErrSyntax))"

definition isDigit :: "char \<Rightarrow> bool" where
  "isDigit c = ((0x30::nat) \<le> of_char c \<and> of_char c \<le> (0x39::nat))"

definition digitVal :: "char \<Rightarrow> nat" where
  "digitVal c = of_char c - 0x30"

text \<open>
  The digit loop of \<open>strconv.ParseUint\<close> in base 10: a byte that is no digit is a syntax
  error, a value above \<open>maxVal\<close> (or above 64 bits) a range error, whichever comes first.
\<close>

fun uintLoop :: "nat \<Rightarrow> nat \<Rightarrow> string \<Rightarrow> numerr + nat" where
  "uintLoop maxVal n [] = Inr n"
| "uintLoop maxVal n (c # cs) =
     (if \<not> isDigit c then Inl ErrSyntax
      else if (2 ^ 64 - 1) div 10 + 1 \<le> n then Inl ErrRange
      else let n1 = n * 10 + digitVal c
           in if 2 ^ 64 \<le> n1 \<or> maxVal < n1 then Inl ErrRange
              else uintLoop maxVal n1 cs)"

definition ParseUint :: "string \<Rightarrow> nat \<Rightarrow> error + nat" where
  "ParseUint s bitSize =
     (if s = [] then Inl (NumError ''ParseUint'' s ErrSyntax)
      else case uintLoop (2 ^ bitSize - 1) 0 s of
             Inl e \<Rightarrow> Inl (NumError ''ParseUint'' s e)
           | Inr n \<Rightarrow> Inr n)"

text \<open>
  \<open>strconv.Atoi\<close>: an optional sign, then decimal digits, in the range of the platform's
  \<open>int\<close> (\<open>strconv.IntSize\<close> bits).
\<close>

definition Atoi :: "world \<Rightarrow> string \<Rightarrow> error + int" where
  "Atoi W s =
     (case s of
        [] \<Rightarrow> Inl (NumError ''Atoi'' s ErrSyntax)
      | c # cs \<Rightarrow>
          let neg = (c = CHR ''-'');
              digits = (if c = CHR ''+'' \<or> c = CHR ''-'' then cs else s);
              cutoff = 2 ^ (strconv_IntSize W - 1)
          in if digits = [] then Inl (NumError ''Atoi'' s ErrSyntax)
             else case uintLoop (2 ^ strconv_IntSize W - 1) 0 digits of
                    Inl e \<Rightarrow> Inl (NumError ''Atoi'' s e)
                  | Inr un \<Rightarrow>
                      if \<not> neg \<and> cutoff \<le> un then Inl (NumError ''Atoi'' s ErrRange)
                      else if neg \<and> cutoff < un then Inl (NumError ''Atoi'' s ErrRange)
                      else Inr (if neg then - int un else int un))"

section \<open>Tag parsing\<close>

text \<open>
  \<open>tagField\<close>; its field \<open>Separator\<close> is \<open>Sep\<close> here, the name \<open>Separator\<close> being the
  package variable's.
\<close>

record tagField =
  Key :: string
  Default :: string
  Required :: bool
  Sep :: string

definition escapedComma :: string where
  "escapedComma = [CHR 0x00]"

text \<open>The body of the loop over \<open>envKeys[1:]\<close>.\<close>

definition modifier :: "world \<Rightarrow> tagField \<Rightarrow> string \<Rightarrow> tagField" where
  "modifier W tf key =
     (let keyData = SplitN key ''='' 2;
          name = ToLower W (case keyData of [] \<Rightarrow> [] | k # _ \<Rightarrow> k)
      in if name = ''required'' then tf\<lparr>Required := True\<rparr>
         else if name = ''default'' then
           (case keyData of
              [_, v] \<Rightarrow> tf\<lparr>Default := ReplaceAll v escapedComma '',''\<rparr>
            | _ \<Rightarrow> tf)
         else if name = ''separator'' then
           (case keyData of
              [_, v] \<Rightarrow> tf\<lparr>Sep := ReplaceAll v escapedComma '',''\<rparr>
            | _ \<Rightarrow> tf)
         else tf)"

definition parseTag :: "world \<Rightarrow> string \<Rightarrow> tagField" where
  "parseTag W tag =
     (let envKeys = Split (ReplaceAll tag [CHR 0x5C, CHR '',''] escapedComma) '',''
      in foldl (modifier W)
           \<lparr>Key = (case envKeys of [] \<Rightarrow> [] | k # _ \<Rightarrow> k), Default = [], Required = False,
            Sep = Separator W\<rparr>
           (tl envKeys))"

section \<open>Coercion\<close>

text \<open>
  \<open>reflect.Value.SetInt\<close> and \<open>SetUint\<close> convert to the field's width, which keeps the low
  bits: two's complement for the signed kinds.
\<close>

definition wrapSigned :: "nat \<Rightarrow> int \<Rightarrow> int" where
  "wrapSigned w x = (x + 2 ^ (w - 1)) mod 2 ^ w - 2 ^ (w - 1)"

definition wrapUnsigned :: "nat \<Rightarrow> nat \<Rightarrow> nat" where
  "wrapUnsigned w x = x mod 2 ^ w"

fun bits :: "world \<Rightarrow> gtype \<Rightarrow> nat" where
  "bits W TInt = strconv_IntSize W"
| "bits W TInt8 = 8"
| "bits W TInt16 = 16"
| "bits W TInt32 = 32"
| "bits W TInt64 = 64"
| "bits W TDuration = 64"
| "bits W TUint = strconv_IntSize W"
| "bits W TUint8 = 8"
| "bits W TUint16 = 16"
| "bits W TUint32 = 32"
| "bits W TUint64 = 64"
| "bits W t = 0"

text \<open>The zero value of a type: what \<open>reflect.New\<close> and \<open>reflect.MakeSlice\<close> allocate.\<close>

fun zero :: "gtype \<Rightarrow> gval" where
  "zero TString = VString []"
| "zero TBool = VBool False"
| "zero TFloat32 = VFloat 0"
| "zero TFloat64 = VFloat 0"
| "zero (TPtr t) = VPtr None"
| "zero (TSlice t) = VSlice None"
| "zero (TMap k t) = VMap None"
| "zero TOther = VOther"
| "zero TUint = VUint 0"
| "zero TUint8 = VUint 0"
| "zero TUint16 = VUint 0"
| "zero TUint32 = VUint 0"
| "zero TUint64 = VUint 0"
| "zero t = VInt 0"

text \<open>The signed and the unsigned integer case of \<open>set\<close>.\<close>

definition setInt :: "world \<Rightarrow> gtype \<Rightarrow> gval \<Rightarrow> string \<Rightarrow> gval \<times> error option" where
  "setInt W t f value =
     (case Atoi W value of
        Inl e \<Rightarrow> (f, Some e)
      | Inr v \<Rightarrow> (VInt (wrapSigned (bits W t) v), None))"

definition setUint :: "world \<Rightarrow> gtype \<Rightarrow> gval \<Rightarrow> string \<Rightarrow> gval \<times> error option" where
  "setUint W t f value =
     (case ParseUint value 64 of
        Inl e \<Rightarrow> (f, Some e)
      | Inr v \<Rightarrow> (VUint (wrapUnsigned (bits W t) v), None))"

text \<open>
  The loop over the elements of a sequence: element \<open>i\<close> of the fresh \<open>dest\<close> is set from
  part \<open>i\<close>; the first error ends the loop.
\<close>

fun setEach :: "(gval \<Rightarrow> string \<Rightarrow> gval \<times> error option) \<Rightarrow> gval list \<Rightarrow> string list
    \<Rightarrow> gval list \<times> error option" where
  "setEach st (d # dest) (v # values) =
     (case st d v of
        (d', Some e) \<Rightarrow> (d' # dest, Some e)
      | (d', None) \<Rightarrow> (case setEach st dest values of (dest', r) \<Rightarrow> (d' # dest', r)))"
| "setEach st dest values = (dest, None)"

text \<open>
  The loop over the pairs of a mapping; \<open>dest\<close> is the map built so far, \<open>z\<close> the zero
  value a pair's value is set into.
\<close>

fun mapLoop :: "(gval \<Rightarrow> string \<Rightarrow> gval \<times> error option) \<Rightarrow> gval \<Rightarrow> (string \<times> gval) list
    \<Rightarrow> string list \<Rightarrow> (string \<times> gval) list \<times> error option" where
  "mapLoop st z dest [] = (dest, None)"
| "mapLoop st z dest (pair # pairs) =
     (case SplitN pair '':'' 2 of
        [k, v] \<Rightarrow>
          (case st z v of
             (valVal, Some e) \<Rightarrow> (dest, Some e)
           | (valVal, None) \<Rightarrow> mapLoop st z (AList.update k valVal dest) pairs)
      | _ \<Rightarrow> (dest, Some (InvalidMapEntry pair)))"

text \<open>
  \<open>set(t, f, value, sliceSeparator)\<close>: \<open>f\<close> is the content of the destination before the
  call; the result is its content after the call, and the error.  A type of kind Struct,
  as of any kind without a case of its own, is \<open>TOther\<close>.
\<close>

primrec set_val :: "world \<Rightarrow> gtype \<Rightarrow> gval \<Rightarrow> string \<Rightarrow> string \<Rightarrow> gval \<times> error option" where
  "set_val W (TPtr t) f value sliceSeparator =
     (case set_val W t (zero t) value sliceSeparator of
        (p, Some e) \<Rightarrow> (f, Some e)
      | (p, None) \<Rightarrow> (VPtr (Some p), None))"
| "set_val W TString f value sliceSeparator = (VString value, None)"
| "set_val W TBool f value sliceSeparator =
     (case ParseBool value of Inl e \<Rightarrow> (f, Some e) | Inr v \<Rightarrow> (VBool v, None))"
| "set_val W TFloat32 f value sliceSeparator =
     (case strconv_ParseFloat W value 32 of Inl e \<Rightarrow> (f, Some e) | Inr v \<Rightarrow> (VFloat v, None))"
| "set_val W TFloat64 f value sliceSeparator =
     (case strconv_ParseFloat W value 64 of Inl e \<Rightarrow> (f, Some e) | Inr v \<Rightarrow> (VFloat v, None))"
| "set_val W TInt f value sliceSeparator = setInt W TInt f value"
| "set_val W TInt8 f value sliceSeparator = setInt W TInt8 f value"
| "set_val W TInt16 f value sliceSeparator = setInt W TInt16 f value"
| "set_val W TInt32 f value sliceSeparator = setInt W TInt32 f value"
| "set_val W TInt64 f value sliceSeparator = setInt W TInt64 f value"
| "set_val W TDuration f value sliceSeparator =
     (case time_ParseDuration W value of Inl e \<Rightarrow> (f, Some e) | Inr d \<Rightarrow> (VInt d, None))"
| "set_val W TUint f value sliceSeparator = setUint W TUint f value"
| "set_val W TUint8 f value sliceSeparator = setUint W TUint8 f value"
| "set_val W TUint16 f value sliceSeparator = setUint W TUint16 f value"
| "set_val W TUint32 f value sliceSeparator = setUint W TUint32 f value"
| "set_val W TUint64 f value sliceSeparator = setUint W TUint64 f value"
| "set_val W (TSlice t) f value sliceSeparator =
     (let sep = (if sliceSeparator = [] then Separator W else sliceSeparator);
          values = Split value sep
      in if t = TString then (VSlice (Some (map VString values)), None)
         else case setEach (\<lambda>d v. set_val W t d v sep)
                     (replicate (length values) (zero t)) values of
                (dest, Some e) \<Rightarrow> (f, Some e)
              | (dest, None) \<Rightarrow> (VSlice (Some dest), None))"
| "set_val W (TMap k t) f value sliceSeparator =
     (let sep = (if sliceSeparator = [] then Separator W else sliceSeparator)
      in if k \<noteq> TString then (f, Some ErrUnsupportedType)
         else if value = [] then (VMap (Some []), None)
         else case mapLoop (\<lambda>d v. set_val W t d v sep) (zero t) [] (Split value sep) of
                (dest, Some e) \<Rightarrow> (f, Some e)
              | (dest, None) \<Rightarrow> (VMap (Some dest), None))"
| "set_val W TOther f value sliceSeparator = (f, Some ErrUnsupportedType)"

section \<open>The decoder\<close>

text \<open>\<open>reflect.StructTag.Get\<close>: the value of the first pair with that key, or the empty string.\<close>

definition Get :: "(string \<times> string) list \<Rightarrow> string \<Rightarrow> string" where
  "Get tags key = (case map_of tags key of None \<Rightarrow> [] | Some v \<Rightarrow> v)"

text \<open>\<open>set\<close> on the content of a field; the kind Struct has no case in \<open>set\<close>.\<close>

fun setContent :: "world \<Rightarrow> content \<Rightarrow> string \<Rightarrow> string \<Rightarrow> content \<times> error option" where
  "setContent W (Leaf t f) value sliceSeparator =
     (case set_val W t f value sliceSeparator of (f', r) \<Rightarrow> (Leaf t f', r))"
| "setContent W (Struct fs) value sliceSeparator = (Struct fs, Some ErrUnsupportedType)"

text \<open>
  The loop body of \<open>unmarshal\<close> from \<open>typeField.Tag.Get(Tag)\<close> on: the state is the
  content of the field, the source mapping and the error joined so far.
\<close>

definition assign :: "world \<Rightarrow> tagField \<Rightarrow> string \<Rightarrow> content \<Rightarrow> (string \<rightharpoonup> string) \<Rightarrow> error option
    \<Rightarrow> content \<times> (string \<rightharpoonup> string) \<times> error option" where
  "assign W tf envValue c envs err =
     (case setContent W c envValue (Sep tf) of
        (c', Some setErr) \<Rightarrow> (c', envs, Join [err, Some setErr])
      | (c', None) \<Rightarrow> (c', envs(Key tf := None), err))"

definition tagged :: "world \<Rightarrow> string \<Rightarrow> bool \<Rightarrow> (string \<times> string) list \<Rightarrow> content
    \<Rightarrow> (string \<rightharpoonup> string) \<Rightarrow> error option \<Rightarrow> content \<times> (string \<rightharpoonup> string) \<times> error option" where
  "tagged W name exported tags c envs err =
     (let tag = Get tags (Tag W)
      in if tag = [] then (c, envs, err)
         else if \<not> exported then (c, envs, Join [err, Some (FieldNotExported name)])
         else
           let tf = parseTag W tag
           in case envs (Key tf) of
                None \<Rightarrow>
                  if Required tf \<and> Default tf = []
                  then (c, envs, Join [err, Some (RequiredNotFound (Key tf))])
                  else if Default tf \<noteq> [] then assign W tf (Default tf) c envs err
                  else (c, envs, err)
              | Some envValue \<Rightarrow> assign W tf envValue c envs err)"

text \<open>
  The loop of \<open>unmarshal\<close> over the fields, and its body.  The recursive call on an
  embedded record is on a pointer to a record, so its two checks pass and it is the loop
  over the embedded fields, the error starting at nil.
\<close>

fun unmarshalFields :: "world \<Rightarrow> sfield list \<Rightarrow> (string \<rightharpoonup> string) \<Rightarrow> error option
      \<Rightarrow> sfield list \<times> (string \<rightharpoonup> string) \<times> error option"
and unmarshalField :: "world \<Rightarrow> sfield \<Rightarrow> (string \<rightharpoonup> string) \<Rightarrow> error option
      \<Rightarrow> sfield \<times> (string \<rightharpoonup> string) \<times> error option" where
  "unmarshalFields W [] envs err = ([], envs, err)"
| "unmarshalFields W (f # fs) envs err =
     (case unmarshalField W f envs err of
        (f', envs', err') \<Rightarrow>
          (case unmarshalFields W fs envs' err' of
             (fs', envs'', err'') \<Rightarrow> (f' # fs', envs'', err'')))"
| "unmarshalField W (SField name exported tags (Leaf t v)) envs err =
     (case tagged W name exported tags (Leaf t v) envs err of
        (c, envs', err') \<Rightarrow> (SField name exported tags c, envs', err'))"
| "unmarshalField W (SField name exported tags (Struct sub)) envs err =
     (if \<not> exported then (SField name exported tags (Struct sub), envs, err)
      else case unmarshalFields W sub envs None of
             (sub', envs', Some unErr) \<Rightarrow>
               (SField name exported tags (Struct sub'), envs', Join [err, Some unErr])
           | (sub', envs', None) \<Rightarrow>
               (case tagged W name exported tags (Struct sub') envs' err of
                  (c, envs'', err') \<Rightarrow> (SField name exported tags c, envs'', err')))"

text \<open>
  \<open>unmarshal\<close>: the argument \<open>v\<close> is no pointer (or nil), a nil pointer, or a pointer to
  some content.  The result is \<open>v\<close> with what it points to after the call, the mapping
  after the call, and the error.
\<close>

fun unmarshal :: "world \<Rightarrow> (string \<rightharpoonup> string) \<Rightarrow> iface
    \<Rightarrow> iface \<times> (string \<rightharpoonup> string) \<times> error option" where
  "unmarshal W envs (Pointer (Struct fs)) =
     (case unmarshalFields W fs envs None of
        (fs', envs', err) \<Rightarrow> (Pointer (Struct fs'), envs', err))"
| "unmarshal W envs v = (v, envs, Some ErrInvalidValue)"

text \<open>
  What a call leaves behind: the error it returns, the record and the mapping after it,
  and the calls of the validator's \<open>Struct\<close> it made, in order, each with its argument.
\<close>

record outcome =
  returned :: "error option"
  target :: iface
  mapping :: "string \<rightharpoonup> string"
  validated :: "iface list"

definition Unmarshal :: "world \<Rightarrow> (string \<rightharpoonup> string) \<Rightarrow> iface \<Rightarrow> outcome" where
  "Unmarshal W envs v =
     (case unmarshal W envs v of
        (v', envs', Some err) \<Rightarrow>
          \<lparr>returned = Some err, target = v', mapping = envs', validated = []\<rparr>
      | (v', envs', None) \<Rightarrow>
          (case validator W of
             Some val \<Rightarrow> \<lparr>returned = val v', target = v', mapping = envs', validated = [v']\<rparr>
           | None \<Rightarrow> \<lparr>returned = None, target = v', mapping = envs', validated = []\<rparr>))"

text \<open>
  The entry points that build the mapping themselves; a call that fails before it has a
  mapping leaves the empty one.
\<close>

definition failed :: "error \<Rightarrow> iface \<Rightarrow> outcome" where
  "failed e v = \<lparr>returned = Some e, target = v, mapping = Map.empty, validated = []\<rparr>"

definition UnmarshalFromEnv :: "world \<Rightarrow> iface \<Rightarrow> outcome" where
  "UnmarshalFromEnv W v =
     (case EnvironToMap (os_Environ W) of
        Inl e \<Rightarrow> failed e v
      | Inr envs \<Rightarrow> Unmarshal W envs v)"

definition UnmarshalFromFile :: "world \<Rightarrow> string \<Rightarrow> iface \<Rightarrow> outcome" where
  "UnmarshalFromFile W path v =
     (case os_ReadFile W path of
        Inl e \<Rightarrow> failed e v
      | Inr data \<Rightarrow>
          let fileEnvs = parseEnvFile W data;
              fullEnvs = os_Environ W @ fileEnvs
          in case EnvironToMap fullEnvs of
               Inl e \<Rightarrow> failed e v
             | Inr envs \<Rightarrow> Unmarshal W envs v)"

definition UnmarshalFromFileOnly :: "world \<Rightarrow> string \<Rightarrow> iface \<Rightarrow> outcome" where
  "UnmarshalFromFileOnly W path v =
     (case os_ReadFile W path of
        Inl e \<Rightarrow> failed e v
      | Inr data \<Rightarrow>
          let fileEnvs = parseEnvFile W data
          in case EnvironToMap fileEnvs of
               Inl e \<Rightarrow> failed e v
             | Inr envs \<Rightarrow> Unmarshal W envs v)"

text \<open>
  The package as it is loaded (\<open>Tag = "env"\<close>, \<open>Separator = ";"\<close>, no validator) on a
  64-bit platform, with an empty environment and no files.  Its library parameters
  reject every input; the examples below stay on inputs that do not reach them (ASCII
  strings, no floats, no durations).
\<close>

definition initial :: world where
  "initial =
     \<lparr>Tag = ''env'', Separator = '';'', validator = None,
      os_Environ = [], os_ReadFile = (\<lambda>path. Inl (ErrorString ''no such file'')),
      strconv_IntSize = 64,
      strconv_ParseFloat = (\<lambda>s bitSize. Inl (NumError ''ParseFloat'' s ErrSyntax)),
      time_ParseDuration = (\<lambda>s. Inl (ErrorString ''time: invalid duration'')),
      unicode_ToLower = (\<lambda>s. s), unicode_TrimSpace = (\<lambda>s. s),
      unicode_TrimRightSpace = (\<lambda>s. s)\<rparr>"

section \<open>Notions the properties are stated with\<close>

text \<open>
  An entry cut at its first \<open>=\<close>: the key before it, the value after it.
\<close>

definition entryKey :: "string \<Rightarrow> string" where
  "entryKey s = takeWhile (\<lambda>x. x \<noteq> CHR ''='') s"

definition entryValue :: "string \<Rightarrow> string" where
  "entryValue s = tl (dropWhile (\<lambda>x. x \<noteq> CHR ''='') s)"

text \<open>
  The modifier tokens of an annotation (all comma-separated tokens after the key, an
  escaped comma not separating), the name of a token (what stands before its first
  \<open>=\<close>, in lower case) and whether it carries a value.
\<close>

definition modifiers :: "string \<Rightarrow> string list" where
  "modifiers tag = tl (Split (ReplaceAll tag [CHR 0x5C, CHR '',''] escapedComma) '','')"

definition modifierName :: "world \<Rightarrow> string \<Rightarrow> string" where
  "modifierName W tok = ToLower W (entryKey tok)"

definition hasValue :: "string \<Rightarrow> bool" where
  "hasValue tok = (CHR ''='' \<in> set tok)"

text \<open>
  The tokens the parser passes over: a name it does not know, and a \<open>default\<close> or a
  \<open>separator\<close> without a value.
\<close>

definition ignoredModifier :: "world \<Rightarrow> string \<Rightarrow> bool" where
  "ignoredModifier W tok =
     (modifierName W tok \<notin> {''required'', ''default'', ''separator''} \<or>
      (modifierName W tok \<in> {''default'', ''separator''} \<and> \<not> hasValue tok))"

text \<open>The parts of a string between the occurrences of one byte.\<close>

fun cut :: "char \<Rightarrow> string \<Rightarrow> string list" where
  "cut c [] = [[]]"
| "cut c (x # xs) =
     (if x = c then [] # cut c xs
      else case cut c xs of [] \<Rightarrow> [[x]] | y # ys \<Rightarrow> (x # y) # ys)"


text \<open>
  A pair token cut at its first \<open>:\<close>, the separator a coercion resolves to, the pair
  tokens of a value, and the coercion of a pair token's value into a fresh element.
\<close>

definition pairKey :: "string \<Rightarrow> string" where
  "pairKey tok = takeWhile (\<lambda>x. x \<noteq> CHR '':'') tok"

definition pairValue :: "string \<Rightarrow> string" where
  "pairValue tok = tl (dropWhile (\<lambda>x. x \<noteq> CHR '':'') tok)"

definition resolved :: "world \<Rightarrow> string \<Rightarrow> string" where
  "resolved W sep = (if sep = [] then Separator W else sep)"

definition pairTokens :: "world \<Rightarrow> string \<Rightarrow> string \<Rightarrow> string list" where
  "pairTokens W value sep = Split value (resolved W sep)"

definition coerced :: "world \<Rightarrow> gtype \<Rightarrow> string \<Rightarrow> string \<Rightarrow> gval \<times> error option" where
  "coerced W t sep tok = set_val W t (zero t) (pairValue tok) (resolved W sep)"

definition wellFormedPair :: "world \<Rightarrow> gtype \<Rightarrow> string \<Rightarrow> string \<Rightarrow> bool" where
  "wellFormedPair W t sep tok = (CHR '':'' \<in> set tok \<and> snd (coerced W t sep tok) = None)"

text \<open>
  The effective value of a field with descriptor \<open>tf\<close>: the mapping's entry for its key,
  else its default when it has one.
\<close>

definition effective :: "tagField \<Rightarrow> (string \<rightharpoonup> string) \<Rightarrow> string option" where
  "effective tf envs =
     (case envs (Key tf) of
        Some envValue \<Rightarrow> Some envValue
      | None \<Rightarrow> if Default tf \<noteq> [] then Some (Default tf) else None)"

text \<open>
  A path into a record: the index of a field, then of a field of that embedded record,
  and so on.  \<open>field_at\<close> follows a path through exported embedded records,
  \<open>delete_at\<close> is the record without the field at the path, and \<open>fieldKeys\<close> are the
  lookup keys of the annotated, exported fields of a kind other than Struct that the
  walk reaches.
\<close>

fun field_at :: "nat list \<Rightarrow> sfield list \<Rightarrow> sfield option" where
  "field_at [] fs = None"
| "field_at (i # p) fs =
     (if length fs \<le> i then None
      else if p = [] then Some (fs ! i)
      else case fs ! i of
             SField name exported tags (Struct sub) \<Rightarrow>
               if exported then field_at p sub else None
           | SField name exported tags (Leaf t v) \<Rightarrow> None)"

fun delete_at :: "nat list \<Rightarrow> sfield list \<Rightarrow> sfield list" where
  "delete_at [] fs = fs"
| "delete_at (i # p) fs =
     (if length fs \<le> i then fs
      else if p = [] then take i fs @ drop (Suc i) fs
      else case fs ! i of
             SField name exported tags (Struct sub) \<Rightarrow>
               fs[i := SField name exported tags (Struct (delete_at p sub))]
           | SField name exported tags (Leaf t v) \<Rightarrow> fs)"

fun fieldKeys :: "world \<Rightarrow> sfield list \<Rightarrow> string set"
and fieldKey :: "world \<Rightarrow> sfield \<Rightarrow> string set" where
  "fieldKeys W [] = {}"
| "fieldKeys W (f # fs) = fieldKey W f \<union> fieldKeys W fs"
| "fieldKey W (SField name exported tags (Leaf t v)) =
     (if exported \<and> Get tags (Tag W) \<noteq> [] then {Key (parseTag W (Get tags (Tag W)))} else {})"
| "fieldKey W (SField name exported tags (Struct sub)) =
     (if exported then fieldKeys W sub else {})"

section \<open>Facts about the string functions\<close>

lemma Index_single:
  "Index s [c] = (if c \<in> set s then Some (length (takeWhile (\<lambda>x. x \<noteq> c) s)) else None)"
  by (induction s) (auto simp: HasPrefix_def)

lemma drop_takeWhile_Suc:
  "drop (Suc (length (takeWhile P s))) s = tl (dropWhile P s)"
  by (induction s) auto

lemma SplitN_single_2:
  "SplitN s [c] 2 =
     (if c \<in> set s then [takeWhile (\<lambda>x. x \<noteq> c) s, tl (dropWhile (\<lambda>x. x \<noteq> c) s)] else [s])"
proof (cases s)
  case Nil
  then show ?thesis by (simp add: SplitN_def)
next
  case (Cons a list)
  then have "min 2 (length s + 1) - 1 = Suc 0" by simp
  then show ?thesis
    by (simp add: SplitN_def Index_single drop_takeWhile_Suc takeWhile_eq_take [symmetric] del: One_nat_def)
qed

lemma splitLoop_Nil: "splitLoop n [] [c] = [[]]"
  by (cases n) simp_all

lemma splitLoop_hit: "splitLoop (Suc n) (c # xs) [c] = [] # splitLoop n xs [c]"
  by (simp add: HasPrefix_def)

lemma splitLoop_miss:
  "x \<noteq> c \<Longrightarrow> splitLoop (Suc n) (x # xs) [c] =
     (case splitLoop (Suc n) xs [c] of [] \<Rightarrow> [[x]] | y # ys \<Rightarrow> (x # y) # ys)"
  by (simp add: HasPrefix_def split: option.splits)

lemma splitLoop_cut: "length s \<le> n \<Longrightarrow> splitLoop n s [c] = cut c s"
proof (induction s arbitrary: n)
  case Nil
  then show ?case by (simp add: splitLoop_Nil)
next
  case (Cons x xs)
  then obtain n' where n: "n = Suc n'" "length xs \<le> n'" by (cases n) auto
  show ?case
  proof (cases "x = c")
    case True
    with n Cons.IH [of n'] show ?thesis by (simp add: splitLoop_hit del: splitLoop.simps)
  next
    case False
    with n Cons.IH [of "Suc n'"] show ?thesis by (simp add: splitLoop_miss del: splitLoop.simps)
  qed
qed

lemma Split_cut: "Split s [c] = cut c s"
  by (simp add: Split_def splitLoop_cut)

lemma replaceLoop_fuel:
  "old \<noteq> [] \<Longrightarrow> length s \<le> n \<Longrightarrow> length s \<le> m \<Longrightarrow>
   replaceLoop n s old new = replaceLoop m s old new"
proof (induction n arbitrary: s m)
  case 0
  then show ?case by (cases m) (simp_all split: option.splits)
next
  case (Suc n)
  show ?case
  proof (cases m)
    case 0
    with Suc.prems show ?thesis by (simp split: option.splits)
  next
    case (Suc m')
    show ?thesis
    proof (cases "Index s old")
      case None
      with Suc show ?thesis by simp
    next
      case (Some j)
      let ?r = "drop (j + length old) s"
      from Suc.prems \<open>m = Suc m'\<close> Some have "length ?r \<le> n" "length ?r \<le> m'"
        by (cases s; cases old; simp)+
      from Suc.IH [OF Suc.prems(1) this] Some \<open>m = Suc m'\<close> show ?thesis by simp
    qed
  qed
qed

lemma ReplaceAll_miss: "old \<noteq> [] \<Longrightarrow> Index s old = None \<Longrightarrow> ReplaceAll s old new = s"
  by (cases "length s") (simp_all add: ReplaceAll_def)

lemma ReplaceAll_hit:
  assumes "old \<noteq> []" "Index s old = Some j"
  shows "ReplaceAll s old new = take j s @ new @ ReplaceAll (drop (j + length old) s) old new"
proof -
  from assms have "s \<noteq> []" by (cases s) auto
  then obtain k where k: "length s = Suc k" by (cases s) auto
  let ?r = "drop (j + length old) s"
  from assms k have "length ?r \<le> k" by (cases old) auto
  from replaceLoop_fuel [OF assms(1) this order_refl, of new]
  show ?thesis using assms k by (simp add: ReplaceAll_def)
qed

lemma map_of_rev_last_occurrence:
  "i < length ps \<Longrightarrow> \<forall>j. i < j \<and> j < length ps \<longrightarrow> fst (ps ! j) \<noteq> fst (ps ! i) \<Longrightarrow>
   map_of (rev ps) (fst (ps ! i)) = Some (snd (ps ! i))"
proof (induction ps arbitrary: i)
  case Nil
  then show ?case by simp
next
  case (Cons p ps)
  show ?case
  proof (cases i)
    case 0
    have "fst p \<notin> fst ` set ps"
    proof
      assume "fst p \<in> fst ` set ps"
      then obtain j where "j < length ps" "fst (ps ! j) = fst p"
        by (auto simp: in_set_conv_nth)
      with Cons.prems(2) 0 show False by (auto dest: spec [of _ "Suc j"])
    qed
    then have "map_of (rev ps) (fst p) = None"
      by (simp add: map_of_eq_None_iff)
    with 0 show ?thesis by (simp add: map_add_def)
  next
    case (Suc i')
    with Cons.prems have "i' < length ps"
      and "\<forall>j. i' < j \<and> j < length ps \<longrightarrow> fst (ps ! j) \<noteq> fst (ps ! i')"
      by (auto dest: spec [of _ "Suc j" for j])
    then have "map_of (rev ps) (fst (ps ! i')) = Some (snd (ps ! i'))"
      by (rule Cons.IH)
    with Suc show ?thesis by (simp add: map_add_def)
  qed
qed

section \<open>Facts about the walk\<close>

lemma leaves_of_Join [simp]: "leaves_of (Join [err, Some e]) = leaves_of err \<union> set (leaves e)"
  by (cases err) (simp_all add: Join_def leaves_of_def List.map_filter_simps)

lemma leaves_of_None [simp]: "leaves_of None = {}"
  by (simp add: leaves_of_def)

lemma assign_cases:
  "assign W tf ev c envs err =
     (case setContent W c ev (Sep tf) of
        (c', Some e) \<Rightarrow> (c', envs, Join [err, Some e])
      | (c', None) \<Rightarrow> (c', envs(Key tf := None), err))"
  by (simp add: assign_def)

text \<open>What the tagged part of the loop body does to content and mapping does not depend
  on the error joined so far; it only adds to that error and only removes from the mapping.\<close>

lemma tagged_ignores_err:
  "fst (tagged W name ex tags c envs err) = fst (tagged W name ex tags c envs err2) \<and>
   fst (snd (tagged W name ex tags c envs err)) = fst (snd (tagged W name ex tags c envs err2))"
  by (simp add: tagged_def assign_def Let_def split: option.splits prod.splits)

lemma tagged_grows:
  "tagged W name ex tags c envs err = (c', envs', err') \<Longrightarrow>
   leaves_of err \<subseteq> leaves_of err' \<and> envs' \<subseteq>\<^sub>m envs"
  by (auto simp: tagged_def assign_def Let_def map_le_def
      split: option.splits prod.splits if_splits)

lemma tagged_Struct:
  "tagged W name ex tags (Struct sub) envs err = (c', envs', err') \<Longrightarrow>
   c' = Struct sub \<and> envs' = envs"
  by (auto simp: tagged_def assign_def Let_def split: option.splits if_splits)

lemma unmarshalFields_append:
  "unmarshalFields W (xs @ ys) envs err =
     (case unmarshalFields W xs envs err of
        (xs', envs1, err1) \<Rightarrow>
          (case unmarshalFields W ys envs1 err1 of
             (ys', envs2, err2) \<Rightarrow> (xs' @ ys', envs2, err2)))"
  by (induction xs arbitrary: envs err) (simp_all split: prod.splits)

lemma unmarshalFields_length:
  "unmarshalFields W fs envs err = (fs', envs', err') \<Longrightarrow> length fs' = length fs"
  by (induction fs arbitrary: envs err fs' envs' err') (auto split: prod.splits)

lemma walk_grows:
  "unmarshalFields W fs envs err = (fs', envs', err') \<Longrightarrow>
     leaves_of err \<subseteq> leaves_of err' \<and> envs' \<subseteq>\<^sub>m envs"
  and step_grows:
  "unmarshalField W f envs err = (f', envs', err') \<Longrightarrow>
     leaves_of err \<subseteq> leaves_of err' \<and> envs' \<subseteq>\<^sub>m envs"
proof (induction W fs envs err and W f envs err
    arbitrary: fs' envs' err' and f' envs' err' rule: unmarshalFields_unmarshalField.induct)
  case (1 W envs err)
  then show ?case by simp
next
  case (2 W f fs envs err)
  obtain f1 envs1 err1 where s: "unmarshalField W f envs err = (f1, envs1, err1)"
    by (cases "unmarshalField W f envs err") auto
  obtain fs2 envs2 err2 where r: "unmarshalFields W fs envs1 err1 = (fs2, envs2, err2)"
    by (cases "unmarshalFields W fs envs1 err1") auto
  from "2.IH"(1) [OF s] have a: "leaves_of err \<subseteq> leaves_of err1" "envs1 \<subseteq>\<^sub>m envs" by simp_all
  from "2.IH"(2) [OF s [symmetric] refl r]
  have b: "leaves_of err1 \<subseteq> leaves_of err2" "envs2 \<subseteq>\<^sub>m envs1" by simp_all
  from "2.prems" s r have "err' = err2" "envs' = envs2" by simp_all
  with a b show ?case by (auto intro: map_le_trans)
next
  case (3 W name exported tags t v envs err)
  then show ?case by (auto split: prod.splits dest: tagged_grows)
next
  case (4 W name exported tags sub envs err)
  show ?case
  proof (cases exported)
    case False
    with "4.prems" show ?thesis by simp
  next
    case True
    obtain sub1 envs1 r1 where w: "unmarshalFields W sub envs None = (sub1, envs1, r1)"
      by (cases "unmarshalFields W sub envs None") auto
    from "4.IH" [OF _ w] True have m: "envs1 \<subseteq>\<^sub>m envs" by simp
    show ?thesis
    proof (cases r1)
      case (Some unErr)
      with "4.prems" True w m show ?thesis by auto
    next
      case None
      with "4.prems" True w obtain c where
        "tagged W name exported tags (Struct sub1) envs1 err = (c, envs', err')"
        by (auto split: prod.splits)
      from tagged_grows [OF this] m show ?thesis by (auto intro: map_le_trans)
    qed
  qed
qed

text \<open>The populated fields and the mapping after the walk do not depend on the error the
  walk starts with: an error never stops or changes the walk.\<close>

lemma walk_ignores_err:
  "fst (unmarshalFields W fs envs err) = fst (unmarshalFields W fs envs err2) \<and>
   fst (snd (unmarshalFields W fs envs err)) = fst (snd (unmarshalFields W fs envs err2))"
  and step_ignores_err:
  "fst (unmarshalField W f envs err) = fst (unmarshalField W f envs err2) \<and>
   fst (snd (unmarshalField W f envs err)) = fst (snd (unmarshalField W f envs err2))"
proof (induction W fs envs err and W f envs err
    arbitrary: err2 and err2 rule: unmarshalFields_unmarshalField.induct)
  case (1 W envs err)
  show ?case by simp
next
  case (2 W f fs envs err)
  obtain f1 envs1 err1 where s: "unmarshalField W f envs err = (f1, envs1, err1)"
    by (cases "unmarshalField W f envs err") auto
  obtain f1' envs1' err1' where s': "unmarshalField W f envs err2 = (f1', envs1', err1')"
    by (cases "unmarshalField W f envs err2") auto
  from "2.IH"(1) [of err2] s s' have eq: "f1' = f1" "envs1' = envs1" by simp_all
  from "2.IH"(2) [OF s [symmetric] refl, of err1'] s s' eq
  show ?case by (auto split: prod.splits)
next
  case (3 W name exported tags t v envs err)
  from tagged_ignores_err [of W name exported tags "Leaf t v" envs err err2]
  show ?case by (auto split: prod.splits)
next
  case (4 W name exported tags sub envs err)
  show ?case
  proof (cases "unmarshalFields W sub envs None")
    case (fields sub1 envs1 r1)
    from tagged_ignores_err [of W name exported tags "Struct sub1" envs1 err err2]
    show ?thesis using fields by (auto split: prod.splits option.splits)
  qed
qed

lemma walk_ignores_err':
  assumes "unmarshalFields W fs envs err = (fs', envs', err')"
  shows "\<exists>err2'. unmarshalFields W fs envs err2 = (fs', envs', err2')"
  using walk_ignores_err [of W fs envs err err2] assms
  by (cases "unmarshalFields W fs envs err2") simp

text \<open>The walk at one index: the fields before it, the field, the fields after it.\<close>

lemma walk_at:
  assumes "i < length fs"
    and "unmarshalFields W (take i fs) envs err = (pre', envs1, err1)"
    and "unmarshalField W (fs ! i) envs1 err1 = (x', envs2, err2)"
    and "unmarshalFields W (drop (Suc i) fs) envs2 err2 = (post', envs3, err3)"
  shows "unmarshalFields W fs envs err = (pre' @ x' # post', envs3, err3)"
proof -
  have "fs = take i fs @ (fs ! i # drop (Suc i) fs)"
    using assms(1) by (simp add: id_take_nth_drop [symmetric])
  then have "unmarshalFields W fs envs err
      = unmarshalFields W (take i fs @ (fs ! i # drop (Suc i) fs)) envs err"
    by simp
  also have "\<dots> = (pre' @ x' # post', envs3, err3)"
    using assms(2-4) by (simp add: unmarshalFields_append del: append_take_drop_id)
  finally show ?thesis .
qed

text \<open>Single steps of the walk.\<close>

lemma step_required_missing:
  assumes "Get tags (Tag W) \<noteq> []"
    and "Required (parseTag W (Get tags (Tag W)))"
    and "Default (parseTag W (Get tags (Tag W))) = []"
    and "envs (Key (parseTag W (Get tags (Tag W)))) = None"
  shows "unmarshalField W (SField name True tags (Leaf t v)) envs err
    = (SField name True tags (Leaf t v), envs,
       Join [err, Some (RequiredNotFound (Key (parseTag W (Get tags (Tag W)))))])"
  using assms by (simp add: tagged_def Let_def)

lemma step_Struct_exported:
  assumes "unmarshalFields W sub envs None = (sub1, es, u)"
  shows "\<exists>r. unmarshalField W (SField name True tags (Struct sub)) envs err
            = (SField name True tags (Struct sub1), es, r) \<and>
           (\<forall>ue. u = Some ue \<longrightarrow> r = Join [err, Some ue])"
proof (cases u)
  case (Some ue)
  with assms show ?thesis by simp
next
  case None
  obtain c em r where t: "tagged W name True tags (Struct sub1) es err = (c, em, r)"
    by (cases "tagged W name True tags (Struct sub1) es err") auto
  from tagged_Struct [OF t] t None assms show ?thesis by simp
qed

lemma map_le_absent: "envs1 \<subseteq>\<^sub>m envs \<Longrightarrow> envs k = None \<Longrightarrow> envs1 k = None"
  by (metis domIff map_le_def option.distinct(1) not_None_eq)

lemma step_explicit:
  assumes "Get tags (Tag W) \<noteq> []"
    and "envs (Key (parseTag W (Get tags (Tag W)))) = Some ev"
    and "set_val W t v ev (Sep (parseTag W (Get tags (Tag W)))) = (v', None)"
  shows "unmarshalField W (SField name True tags (Leaf t v)) envs err
    = (SField name True tags (Leaf t v'), envs(Key (parseTag W (Get tags (Tag W))) := None), err)"
  using assms by (simp add: tagged_def assign_def Let_def)

lemma step_default:
  assumes "Get tags (Tag W) \<noteq> []"
    and "envs (Key (parseTag W (Get tags (Tag W)))) = None"
    and "Default (parseTag W (Get tags (Tag W))) \<noteq> []"
    and "set_val W t v (Default (parseTag W (Get tags (Tag W))))
           (Sep (parseTag W (Get tags (Tag W)))) = (v', None)"
  shows "unmarshalField W (SField name True tags (Leaf t v)) envs err
    = (SField name True tags (Leaf t v'), envs, err)"
  using assms by (simp add: tagged_def assign_def Let_def fun_upd_idem)

lemma step_absent:
  assumes "envs (Key (parseTag W (Get tags (Tag W)))) = None"
  shows "fst (snd (unmarshalField W (SField name ex tags (Leaf t v)) envs err)) = envs"
  using assms
  by (auto simp: tagged_def assign_def Let_def split: prod.splits option.splits)

lemma map_le_present: "envs1 \<subseteq>\<^sub>m envs \<Longrightarrow> envs1 k = Some x \<Longrightarrow> envs k = Some x"
  by (metis domI map_le_def)

text \<open>The walk changes the mapping only by removing keys of reached annotated fields.\<close>

lemma tagged_removes:
  assumes "tagged W name ex tags c envs err = (c', envs', err')"
  shows "envs' k = envs k \<or>
    (envs k \<noteq> None \<and> envs' k = None \<and> ex \<and> Get tags (Tag W) \<noteq> [] \<and>
     k = Key (parseTag W (Get tags (Tag W))) \<and> (\<exists>t v. c' = Leaf t v))"
proof (cases c)
  case (Leaf t v)
  with assms show ?thesis
    by (auto simp: tagged_def assign_def Let_def split: option.splits if_splits prod.splits)
next
  case (Struct sub)
  with assms tagged_Struct [of W name ex tags sub envs err c' envs' err'] show ?thesis by simp
qed

lemma walk_removes:
  "unmarshalFields W fs envs err = (fs', envs', err') \<Longrightarrow>
     envs' k = envs k \<or> (envs k \<noteq> None \<and> envs' k = None \<and> k \<in> fieldKeys W fs)"
  and step_removes:
  "unmarshalField W f envs err = (f', envs', err') \<Longrightarrow>
     envs' k = envs k \<or> (envs k \<noteq> None \<and> envs' k = None \<and> k \<in> fieldKey W f)"
proof (induction W fs envs err and W f envs err
    arbitrary: fs' envs' err' and f' envs' err' rule: unmarshalFields_unmarshalField.induct)
  case (1 W envs err)
  then show ?case by simp
next
  case (2 W f fs envs err)
  obtain f1 envs1 err1 where s: "unmarshalField W f envs err = (f1, envs1, err1)"
    by (cases "unmarshalField W f envs err") auto
  obtain fs2 envs2 err2 where r: "unmarshalFields W fs envs1 err1 = (fs2, envs2, err2)"
    by (cases "unmarshalFields W fs envs1 err1") auto
  from "2.prems" s r have e: "envs' = envs2" by simp
  from "2.IH"(1) [OF s] "2.IH"(2) [OF s [symmetric] refl r] e
  show ?case unfolding fieldKeys.simps Un_iff by metis
next
  case (3 W name exported tags t v envs err)
  then obtain c where "tagged W name exported tags (Leaf t v) envs err = (c, envs', err')"
    by (auto split: prod.splits)
  from tagged_removes [OF this, of k] show ?case by auto
next
  case (4 W name exported tags sub envs err)
  show ?case
  proof (cases exported)
    case False
    with "4.prems" show ?thesis by simp
  next
    case True
    obtain sub1 envs1 r1 where w: "unmarshalFields W sub envs None = (sub1, envs1, r1)"
      by (cases "unmarshalFields W sub envs None") auto
    from "4.IH" [OF _ w] True
    have ih: "envs1 k = envs k \<or> (envs k \<noteq> None \<and> envs1 k = None \<and> k \<in> fieldKeys W sub)"
      by simp
    have "envs' = envs1"
    proof (cases r1)
      case (Some unErr)
      with "4.prems" True w show ?thesis by simp
    next
      case None
      with "4.prems" True w obtain c where
        "tagged W name exported tags (Struct sub1) envs1 err = (c, envs', err')"
        by (auto split: prod.splits)
      from tagged_Struct [OF this] show ?thesis by simp
    qed
    with ih True show ?thesis by auto
  qed
qed

lemma fieldKeys_append: "fieldKeys W (xs @ ys) = fieldKeys W xs \<union> fieldKeys W ys"
  by (induction xs) auto


lemma tagged_leaf_effective:
  assumes "Get tags (Tag W) \<noteq> []"
    and "effective (parseTag W (Get tags (Tag W))) envs = Some ev"
  shows "tagged W name True tags c envs err
    = assign W (parseTag W (Get tags (Tag W))) ev c envs err"
  using assms by (auto simp: tagged_def effective_def Let_def split: option.splits if_splits)

text \<open>A reached field whose effective value coerces holds the coerced value after the
  walk, when its key has no entry or is the key of no other reached field.\<close>

lemma step_effective:
  assumes "Get tags (Tag W) \<noteq> []"
    and "effective (parseTag W (Get tags (Tag W))) envs = Some ev"
    and "set_val W t v ev (Sep (parseTag W (Get tags (Tag W)))) = (v', None)"
  shows "\<exists>envs'. unmarshalField W (SField name True tags (Leaf t v)) envs err
    = (SField name True tags (Leaf t v'), envs', err)"
  using tagged_leaf_effective [OF assms(1,2), of name "Leaf t v" err] assms(3)
  by (simp add: assign_def)

lemma populated_walk:
  assumes "field_at q fs = Some (SField name True tags (Leaf t v))"
    and "Get tags (Tag W) \<noteq> []"
    and "set_val W t v ev (Sep (parseTag W (Get tags (Tag W)))) = (v', None)"
    and "effective (parseTag W (Get tags (Tag W))) envs = Some ev"
    and "envs (Key (parseTag W (Get tags (Tag W)))) \<noteq> None
      \<longrightarrow> Key (parseTag W (Get tags (Tag W))) \<notin> fieldKeys W (delete_at q fs)"
    and "unmarshalFields W fs envs err = (fs', envs', err')"
  shows "field_at q fs' = Some (SField name True tags (Leaf t v'))"
  using assms(1,4-6)
proof (induction q arbitrary: fs envs err fs' envs' err')
  case Nil
  then show ?case by simp
next
  case (Cons i q)
  let ?g = "SField name True tags (Leaf t v)"
  let ?tf = "parseTag W (Get tags (Tag W))"
  let ?pre = "take i fs" and ?x = "fs ! i" and ?post = "drop (Suc i) fs"
  from Cons.prems(1) have i: "i < length fs"
    by (simp split: if_splits)
  obtain pre' e1 r1 where A: "unmarshalFields W ?pre envs err = (pre', e1, r1)"
    by (cases "unmarshalFields W ?pre envs err") auto
  obtain x' e2 r2 where B: "unmarshalField W ?x e1 r1 = (x', e2, r2)"
    by (cases "unmarshalField W ?x e1 r1") auto
  obtain post' e3 r3 where C: "unmarshalFields W ?post e2 r2 = (post', e3, r3)"
    by (cases "unmarshalFields W ?post e2 r2") auto
  from walk_at [OF i A B C] Cons.prems(4) have res: "fs' = pre' @ x' # post'" by simp
  from unmarshalFields_length [OF A] i have len: "length pre' = i" by simp
  show ?case
  proof (cases "q = []")
    case True
    with Cons.prems(1) i have x: "?x = ?g" by simp
    from True i have "delete_at (i # q) fs = ?pre @ ?post" by simp
    with Cons.prems(3) have "envs (Key ?tf) \<noteq> None \<longrightarrow> Key ?tf \<notin> fieldKeys W ?pre"
      by (simp add: fieldKeys_append)
    with walk_removes [OF A, of "Key ?tf"] have "e1 (Key ?tf) = envs (Key ?tf)" by auto
    with Cons.prems(2) have here: "effective ?tf e1 = Some ev"
      by (simp add: effective_def)
    from step_effective [OF assms(2) here assms(3), of name r1] B x
    have "x' = SField name True tags (Leaf t v')"
      by (auto simp del: unmarshalFields.simps unmarshalField.simps)
    with True res len show ?thesis by (simp add: nth_append)
  next
    case False
    with Cons.prems(1) i obtain n tg sub where x: "?x = SField n True tg (Struct sub)"
      and inner: "field_at q sub = Some ?g"
      by (cases "fs ! i"; cases "Content (fs ! i)") (auto split: if_splits)
    let ?x0 = "SField n True tg (Struct (delete_at q sub))"
    from False i x have "delete_at (i # q) fs = ?pre @ ?x0 # ?post"
      by (simp add: upd_conv_take_nth_drop)
    with Cons.prems(3) have out: "envs (Key ?tf) \<noteq> None \<longrightarrow> Key ?tf \<notin> fieldKeys W ?pre"
      "envs (Key ?tf) \<noteq> None \<longrightarrow> Key ?tf \<notin> fieldKeys W (delete_at q sub)"
      by (simp_all add: fieldKeys_append)
    with walk_removes [OF A, of "Key ?tf"] have same: "e1 (Key ?tf) = envs (Key ?tf)" by auto
    with Cons.prems(2) have here: "effective ?tf e1 = Some ev"
      by (simp add: effective_def)
    from same out(2) have out': "e1 (Key ?tf) \<noteq> None \<longrightarrow> Key ?tf \<notin> fieldKeys W (delete_at q sub)"
      by simp
    obtain sub1 es u where D: "unmarshalFields W sub e1 None = (sub1, es, u)"
      by (cases "unmarshalFields W sub e1 None") auto
    from Cons.IH [OF inner here out' D]
    have ih: "field_at q sub1 = Some (SField name True tags (Leaf t v'))" .
    from step_Struct_exported [OF D, of n tg r1] B x
    have "x' = SField n True tg (Struct sub1)" by auto
    with False res len ih show ?thesis by (simp add: nth_append)
  qed
qed

text \<open>Evaluation of the number parsers and of the cut of a pair.\<close>

lemmas number_eval =
  Atoi_def ParseUint_def isDigit_def digitVal_def setInt_def setUint_def wrapSigned_def
  wrapUnsigned_def

lemma SplitN_colon_2:
  "SplitN tok '':'' 2 = (if CHR '':'' \<in> set tok then [pairKey tok, pairValue tok] else [tok])"
  by (simp add: SplitN_single_2 pairKey_def pairValue_def)

section \<open>Modifier tokens\<close>

lemma SplitN_eq_2:
  "SplitN tok ''='' 2 = (if hasValue tok then [entryKey tok, entryValue tok] else [tok])"
  by (simp add: SplitN_single_2 hasValue_def entryKey_def entryValue_def)

lemma entryKey_no_eq: "\<not> hasValue tok \<Longrightarrow> entryKey tok = tok"
  by (induction tok) (auto simp: hasValue_def entryKey_def)

lemma modifier_cases:
  "modifier W tf tok =
     (if modifierName W tok = ''required'' then tf\<lparr>Required := True\<rparr>
      else if modifierName W tok = ''default'' \<and> hasValue tok
        then tf\<lparr>Default := ReplaceAll (entryValue tok) escapedComma '',''\<rparr>
      else if modifierName W tok = ''separator'' \<and> hasValue tok
        then tf\<lparr>Sep := ReplaceAll (entryValue tok) escapedComma '',''\<rparr>
      else tf)"
proof (cases "hasValue tok")
  case True
  then show ?thesis
    by (simp add: modifier_def modifierName_def SplitN_eq_2 Let_def)
next
  case False
  then show ?thesis
    by (simp add: modifier_def modifierName_def SplitN_eq_2 Let_def entryKey_no_eq)
qed

lemma parseTag_fold:
  "parseTag W tag =
     foldl (modifier W)
       \<lparr>Key = (case Split (ReplaceAll tag [CHR 0x5C, CHR '',''] escapedComma) '','' of
                [] \<Rightarrow> [] | k # _ \<Rightarrow> k),
        Default = [], Required = False, Sep = Separator W\<rparr>
       (modifiers tag)"
  by (simp add: parseTag_def modifiers_def Let_def)

lemma foldl_modifier_ignored:
  "\<forall>tok \<in> set toks. ignoredModifier W tok \<Longrightarrow> foldl (modifier W) tf toks = tf"
  by (induction toks arbitrary: tf) (auto simp: modifier_cases ignoredModifier_def)

lemma foldl_modifier_filter:
  "foldl (modifier W) tf (filter (\<lambda>tok. \<not> ignoredModifier W tok) toks) = foldl (modifier W) tf toks"
  by (induction toks arbitrary: tf) (auto simp: modifier_cases ignoredModifier_def)

lemmas tag_eval =
  parseTag_fold modifiers_def Split_cut ReplaceAll_miss ReplaceAll_hit escapedComma_def
  HasPrefix_def modifier_cases modifierName_def hasValue_def entryKey_def entryValue_def
  ToLower_def isASCII_def lowerByte_def char_of_def bit_simps

text \<open>
  C4, as the code has it.  The loop body leaves the descriptor as it is on a token whose
  name is none of \<open>required\<close>, \<open>default\<close>, \<open>separator\<close> and on a \<open>default\<close> or
  \<open>separator\<close> without \<open>=value\<close>; such tokens can be dropped from the annotation without
  changing the descriptor, and an annotation with no other modifier tokens has
  \<open>required\<close> false, no default and the separator it started with.  No error is
  possible: \<open>parseTag\<close> returns a descriptor and nothing else.  A token named \<open>required\<close>
  sets \<open>required\<close> whether or not a value follows it.
\<close>

theorem ignored_modifiers:
  "(ignoredModifier W tok \<longrightarrow> modifier W tf tok = tf) \<and>
   (modifierName W rtok = ''required'' \<longrightarrow> Required (modifier W tf rtok)) \<and>
   ((\<forall>tok \<in> set (modifiers tag). ignoredModifier W tok) \<longrightarrow>
      \<not> Required (parseTag W tag) \<and> Default (parseTag W tag) = [] \<and>
      Sep (parseTag W tag) = Separator W) \<and>
   foldl (modifier W) tf (filter (\<lambda>tok. \<not> ignoredModifier W tok) toks) =
     foldl (modifier W) tf toks"
proof (intro conjI impI)
  assume "ignoredModifier W tok"
  then show "modifier W tf tok = tf"
    by (auto simp: modifier_cases ignoredModifier_def)
next
  assume "modifierName W rtok = ''required''"
  then show "Required (modifier W tf rtok)" by (simp add: modifier_cases)
next
  assume all: "\<forall>tok \<in> set (modifiers tag). ignoredModifier W tok"
  show "\<not> Required (parseTag W tag)" "Default (parseTag W tag) = []"
    "Sep (parseTag W tag) = Separator W"
    by (simp_all add: parseTag_fold foldl_modifier_ignored [OF all])
next
  show "foldl (modifier W) tf (filter (\<lambda>tok. \<not> ignoredModifier W tok) toks) =
     foldl (modifier W) tf toks"
    by (rule foldl_modifier_filter)
qed

theorem ignored_modifiers_witness:
  "modifier initial \<lparr>Key = ''KEY'', Default = ''d'', Required = False, Sep = '';''\<rparr> ''default''
     = \<lparr>Key = ''KEY'', Default = ''d'', Required = False, Sep = '';''\<rparr> \<and>
   Required (modifier initial \<lparr>Key = ''KEY'', Default = ''d'', Required = False, Sep = '';''\<rparr>
     ''required=false'') \<and>
   \<not> Required (parseTag initial ''KEY,default,separator,foo=1'') \<and>
   Default (parseTag initial ''KEY,default,separator,foo=1'') = [] \<and>
   Sep (parseTag initial ''KEY,default,separator,foo=1'') = '';''"
proof -
  let ?tf = "\<lparr>Key = ''KEY'', Default = ''d'', Required = False, Sep = '';''\<rparr>"
  have toks: "modifiers ''KEY,default,separator,foo=1'' = [''default'', ''separator'', ''foo=1'']"
    by (simp add: modifiers_def Split_cut ReplaceAll_miss HasPrefix_def)
  have ign: "ignoredModifier initial ''default''" "ignoredModifier initial ''separator''"
    "ignoredModifier initial ''foo=1''"
    by (simp_all add: ignoredModifier_def modifierName_def hasValue_def entryKey_def
        ToLower_def isASCII_def lowerByte_def)
  have req: "modifierName initial ''required=false'' = ''required''"
    by (simp add: modifierName_def entryKey_def ToLower_def isASCII_def lowerByte_def)
  have sep: "Separator initial = '';''" by (simp add: initial_def)
  from ignored_modifiers [of initial "''default''" ?tf "''required=false''"
      "''KEY,default,separator,foo=1''" "[]"] toks ign req sep
  show ?thesis by simp
qed

theorem required_with_value_counterexample:
  "Required (parseTag initial ''KEY,required=false'') \<and>
   parseTag initial ''KEY,required=false'' \<noteq> parseTag initial ''KEY''"
  by (simp add: tag_eval initial_def)

section \<open>The separator of a field\<close>













section \<open>Mapping fields\<close>

lemma mapLoop_well_formed:
  "\<forall>tok \<in> set toks. CHR '':'' \<in> set tok \<and> snd (st z (pairValue tok)) = None \<Longrightarrow>
   \<exists>m. mapLoop st z dest toks = (m, None) \<and>
       map_of m = map_of dest ++ map_of (rev (map (\<lambda>tok. (pairKey tok, fst (st z (pairValue tok)))) toks))"
proof (induction toks arbitrary: dest)
  case Nil
  then show ?case by simp
next
  case (Cons tok toks)
  let ?k = "pairKey tok"
  from Cons.prems obtain v where tok: "CHR '':'' \<in> set tok" "st z (pairValue tok) = (v, None)"
    by (cases "st z (pairValue tok)") auto
  from Cons.prems have "\<forall>tok \<in> set toks. CHR '':'' \<in> set tok \<and> snd (st z (pairValue tok)) = None"
    by simp
  from Cons.IH [OF this, of "AList.update ?k v dest"]
  obtain m where m: "mapLoop st z (AList.update ?k v dest) toks = (m, None)"
    "map_of m = map_of (AList.update ?k v dest)
        ++ map_of (rev (map (\<lambda>tok. (pairKey tok, fst (st z (pairValue tok)))) toks))"
    by blast
  have "mapLoop st z dest (tok # toks) = (m, None)"
    using tok m(1) by (simp add: SplitN_colon_2)
  moreover have "map_of m = map_of dest
      ++ map_of (rev (map (\<lambda>tok. (pairKey tok, fst (st z (pairValue tok)))) (tok # toks)))"
    using m(2) tok(2) by (simp add: update_conv' map_add_assoc [symmetric])
  ultimately show ?case by blast
qed

lemma mapLoop_first_malformed:
  "\<forall>tok \<in> set pre. CHR '':'' \<in> set tok \<and> snd (st z (pairValue tok)) = None \<Longrightarrow>
   CHR '':'' \<notin> set bad \<Longrightarrow>
   snd (mapLoop st z dest (pre @ bad # rest)) = Some (InvalidMapEntry bad)"
proof (induction pre arbitrary: dest)
  case Nil
  then show ?case by (simp add: SplitN_colon_2)
next
  case (Cons tok pre)
  from Cons.prems obtain v where "st z (pairValue tok) = (v, None)"
    by (cases "st z (pairValue tok)") auto
  with Cons show ?case by (simp add: SplitN_colon_2)
qed

lemma mapLoop_first_uncoercible:
  "\<forall>tok \<in> set pre. CHR '':'' \<in> set tok \<and> snd (st z (pairValue tok)) = None \<Longrightarrow>
   CHR '':'' \<in> set bad \<Longrightarrow> snd (st z (pairValue bad)) = Some e \<Longrightarrow>
   snd (mapLoop st z dest (pre @ bad # rest)) = Some e"
proof (induction pre arbitrary: dest)
  case Nil
  then obtain v where "st z (pairValue bad) = (v, Some e)"
    by (cases "st z (pairValue bad)") auto
  with Nil show ?case by (simp add: SplitN_colon_2)
next
  case (Cons tok pre)
  from Cons.prems obtain v where "st z (pairValue tok) = (v, None)"
    by (cases "st z (pairValue tok)") auto
  with Cons show ?case by (simp add: SplitN_colon_2)
qed

lemma mapLoop_some_malformed:
  "\<exists>tok \<in> set toks. CHR '':'' \<notin> set tok \<Longrightarrow> snd (mapLoop st z dest toks) \<noteq> None"
proof (induction toks arbitrary: dest)
  case Nil
  then show ?case by simp
next
  case (Cons tok toks)
  show ?case
  proof (cases "CHR '':'' \<in> set tok")
    case False
    then show ?thesis by (simp add: SplitN_colon_2)
  next
    case True
    with Cons.prems have "\<exists>tok \<in> set toks. CHR '':'' \<notin> set tok" by auto
    from Cons.IH [OF this] True show ?thesis
      by (simp add: SplitN_colon_2 split: prod.splits option.splits)
  qed
qed

lemma set_val_map:
  "set_val W (TMap TString t) f value sep =
     (if value = [] then (VMap (Some []), None)
      else case mapLoop (\<lambda>d v. set_val W t d v (resolved W sep)) (zero t) [] (pairTokens W value sep) of
             (dest, Some e) \<Rightarrow> (f, Some e)
           | (dest, None) \<Rightarrow> (VMap (Some dest), None))"
  by (simp add: resolved_def pairTokens_def Let_def)

text \<open>
  C6, as the code has it.  For a field of type mapping from text to \<open>t\<close>: the empty
  value gives the empty mapping, not the nil one.  A non-empty value is split on the
  resolved separator into pair tokens; when every token has a \<open>:\<close> and the text after
  its first \<open>:\<close> coerces to \<open>t\<close>, the field is assigned the mapping that sends each
  key (the text before the first \<open>:\<close>) to the coerced value of the last token with that
  key.  The tokens are taken in order and the first that fails ends the coercion, the
  field keeping what it held: when that token lacks a \<open>:\<close> the error names it, when it
  has one and the text after it does not coerce the error is that coercion's; and
  whenever some token lacks a \<open>:\<close> the coercion fails and the field keeps what it held.
\<close>

theorem mapping_coercion:
  "set_val W (TMap TString t) f [] sep = (VMap (Some []), None) \<and>
   (raw \<noteq> [] \<and> (\<forall>tok \<in> set (pairTokens W raw sep). wellFormedPair W t sep tok) \<longrightarrow>
      (\<exists>m. set_val W (TMap TString t) f raw sep = (VMap (Some m), None) \<and>
           map_of m = map_of (rev (map (\<lambda>tok. (pairKey tok, fst (coerced W t sep tok)))
                                    (pairTokens W raw sep))) \<and>
           (\<forall>i < length (pairTokens W raw sep).
              (\<forall>j. i < j \<and> j < length (pairTokens W raw sep) \<longrightarrow>
                   pairKey (pairTokens W raw sep ! j) \<noteq> pairKey (pairTokens W raw sep ! i)) \<longrightarrow>
              map_of m (pairKey (pairTokens W raw sep ! i))
                = Some (fst (coerced W t sep (pairTokens W raw sep ! i)))))) \<and>
   (raw \<noteq> [] \<and> pairTokens W raw sep = pre @ bad # rest \<and>
    (\<forall>tok \<in> set pre. wellFormedPair W t sep tok) \<and> CHR '':'' \<notin> set bad \<longrightarrow>
      set_val W (TMap TString t) f raw sep = (f, Some (InvalidMapEntry bad))) \<and>
   (raw \<noteq> [] \<and> (\<exists>tok \<in> set (pairTokens W raw sep). CHR '':'' \<notin> set tok) \<longrightarrow>
      (\<exists>e. set_val W (TMap TString t) f raw sep = (f, Some e))) \<and>
   (raw \<noteq> [] \<and> pairTokens W raw sep = pre @ bad # rest \<and>
    (\<forall>tok \<in> set pre. wellFormedPair W t sep tok) \<and> CHR '':'' \<in> set bad \<and>
    snd (coerced W t sep bad) = Some e \<longrightarrow>
      set_val W (TMap TString t) f raw sep = (f, Some e))"
proof (intro conjI impI)
  show "set_val W (TMap TString t) f [] sep = (VMap (Some []), None)"
    by (simp add: Let_def)
next
  let ?toks = "pairTokens W raw sep"
  let ?st = "\<lambda>d v. set_val W t d v (resolved W sep)"
  let ?ps = "map (\<lambda>tok. (pairKey tok, fst (coerced W t sep tok))) ?toks"
  assume "raw \<noteq> [] \<and> (\<forall>tok \<in> set ?toks. wellFormedPair W t sep tok)"
  then have ne: "raw \<noteq> []"
    and wf: "\<forall>tok \<in> set ?toks. CHR '':'' \<in> set tok \<and> snd (?st (zero t) (pairValue tok)) = None"
    by (simp_all add: wellFormedPair_def coerced_def)
  from mapLoop_well_formed [where st = ?st and z = "zero t" and dest = "[]", OF wf]
  obtain m where m: "mapLoop ?st (zero t) [] ?toks = (m, None)" "map_of m = map_of (rev ?ps)"
    by (auto simp: coerced_def)
  have run: "set_val W (TMap TString t) f raw sep = (VMap (Some m), None)"
    using ne m(1) by (simp add: set_val_map del: set_val.simps)
  have last: "map_of m (pairKey (?toks ! i)) = Some (fst (coerced W t sep (?toks ! i)))"
    if "i < length ?toks"
      and "\<forall>j. i < j \<and> j < length ?toks \<longrightarrow> pairKey (?toks ! j) \<noteq> pairKey (?toks ! i)" for i
    using map_of_rev_last_occurrence [of i ?ps] that m(2) by simp
  show "\<exists>m. set_val W (TMap TString t) f raw sep = (VMap (Some m), None) \<and>
           map_of m = map_of (rev ?ps) \<and>
           (\<forall>i < length ?toks.
              (\<forall>j. i < j \<and> j < length ?toks \<longrightarrow> pairKey (?toks ! j) \<noteq> pairKey (?toks ! i)) \<longrightarrow>
              map_of m (pairKey (?toks ! i)) = Some (fst (coerced W t sep (?toks ! i))))"
    using run m(2) last by blast
next
  let ?st = "\<lambda>d v. set_val W t d v (resolved W sep)"
  assume a: "raw \<noteq> [] \<and> pairTokens W raw sep = pre @ bad # rest \<and>
    (\<forall>tok \<in> set pre. wellFormedPair W t sep tok) \<and> CHR '':'' \<notin> set bad"
  then have "\<forall>tok \<in> set pre. CHR '':'' \<in> set tok \<and> snd (?st (zero t) (pairValue tok)) = None"
    by (simp add: wellFormedPair_def coerced_def)
  from mapLoop_first_malformed [where st = ?st and z = "zero t" and dest = "[]" and rest = rest,
      OF this, of bad] a
  have "snd (mapLoop ?st (zero t) [] (pairTokens W raw sep)) = Some (InvalidMapEntry bad)"
    by simp
  with a show "set_val W (TMap TString t) f raw sep = (f, Some (InvalidMapEntry bad))"
    by (auto simp: set_val_map split: prod.splits simp del: set_val.simps)
next
  let ?st = "\<lambda>d v. set_val W t d v (resolved W sep)"
  assume a: "raw \<noteq> [] \<and> (\<exists>tok \<in> set (pairTokens W raw sep). CHR '':'' \<notin> set tok)"
  then have "snd (mapLoop ?st (zero t) [] (pairTokens W raw sep)) \<noteq> None"
    by (intro mapLoop_some_malformed) simp
  with a show "\<exists>e. set_val W (TMap TString t) f raw sep = (f, Some e)"
    by (auto simp: set_val_map split: prod.splits simp del: set_val.simps)
next
  let ?st = "\<lambda>d v. set_val W t d v (resolved W sep)"
  assume a: "raw \<noteq> [] \<and> pairTokens W raw sep = pre @ bad # rest \<and>
    (\<forall>tok \<in> set pre. wellFormedPair W t sep tok) \<and> CHR '':'' \<in> set bad \<and>
    snd (coerced W t sep bad) = Some e"
  then have pre: "\<forall>tok \<in> set pre. CHR '':'' \<in> set tok \<and> snd (?st (zero t) (pairValue tok)) = None"
    and bad: "CHR '':'' \<in> set bad" "snd (?st (zero t) (pairValue bad)) = Some e"
    by (simp_all add: wellFormedPair_def coerced_def)
  from mapLoop_first_uncoercible [where st = ?st and z = "zero t" and dest = "[]"
      and rest = rest and pre = pre and bad = bad and e = e, OF pre bad] a
  have "snd (mapLoop ?st (zero t) [] (pairTokens W raw sep)) = Some e"
    by simp
  with a show "set_val W (TMap TString t) f raw sep = (f, Some e)"
    by (auto simp: set_val_map split: prod.splits simp del: set_val.simps)
qed

theorem mapping_coercion_witness:
  "(\<exists>m. set_val initial (TMap TString TInt) (VMap None) ''http:80;https:443;http:81'' []
          = (VMap (Some m), None) \<and>
        map_of m ''http'' = Some (VInt 81) \<and> map_of m ''https'' = Some (VInt 443)) \<and>
   set_val initial (TMap TString TInt) (VMap None) ''a:1;b;c:3'' []
     = (VMap None, Some (InvalidMapEntry ''b'')) \<and>
   set_val initial (TMap TString TInt) (VMap None) ''a:1;b:x;c'' []
     = (VMap None, Some (NumError ''Atoi'' ''x'' ErrSyntax))"
proof -
  let ?good = "''http:80;https:443;http:81''" and ?bad = "''a:1;b;c:3''"
  let ?worse = "''a:1;b:x;c''"
  have toks: "pairTokens initial ?good [] = [''http:80'', ''https:443'', ''http:81'']"
    "pairTokens initial ?bad [] = [''a:1''] @ ''b'' # [''c:3'']"
    "pairTokens initial ?worse [] = [''a:1''] @ ''b:x'' # [''c'']"
    by (simp_all add: pairTokens_def resolved_def initial_def Split_cut)
  have x: "snd (coerced initial TInt [] ''b:x'') = Some (NumError ''Atoi'' ''x'' ErrSyntax)"
    "CHR '':'' \<in> set ''b:x''" "?worse \<noteq> []"
    by (simp_all add: coerced_def pairValue_def number_eval initial_def)
  have c: "coerced initial TInt [] ''http:80'' = (VInt 80, None)"
    "coerced initial TInt [] ''https:443'' = (VInt 443, None)"
    "coerced initial TInt [] ''http:81'' = (VInt 81, None)"
    "coerced initial TInt [] ''a:1'' = (VInt 1, None)"
    by (simp_all add: coerced_def pairValue_def number_eval initial_def)
  have wf: "\<forall>tok \<in> set (pairTokens initial ?good []). wellFormedPair initial TInt [] tok"
    "\<forall>tok \<in> set [''a:1'']. wellFormedPair initial TInt [] tok"
    by (simp_all add: toks wellFormedPair_def c)
  have ne: "?good \<noteq> []" "?bad \<noteq> []" "CHR '':'' \<notin> set ''b''" by simp_all
  from mapping_coercion [where W = initial and t = TInt and f = "VMap None" and sep = "[]"
      and raw = ?good] wf(1) ne(1)
  obtain m where m: "set_val initial (TMap TString TInt) (VMap None) ?good [] = (VMap (Some m), None)"
    "map_of m = map_of (rev (map (\<lambda>tok. (pairKey tok, fst (coerced initial TInt [] tok)))
                               (pairTokens initial ?good [])))"
    by blast
  have "map_of m ''http'' = Some (VInt 81)" "map_of m ''https'' = Some (VInt 443)"
    by (simp_all add: m(2) toks c pairKey_def)
  moreover have "set_val initial (TMap TString TInt) (VMap None) ?bad []
      = (VMap None, Some (InvalidMapEntry ''b''))"
    using mapping_coercion [where W = initial and t = TInt and f = "VMap None" and sep = "[]"
        and raw = ?bad and pre = "[''a:1'']" and bad = "''b''" and rest = "[''c:3'']"]
      toks(2) wf(2) ne(2,3)
    by blast
  moreover have "set_val initial (TMap TString TInt) (VMap None) ?worse []
      = (VMap None, Some (NumError ''Atoi'' ''x'' ErrSyntax))"
    using mapping_coercion [where W = initial and t = TInt and f = "VMap None" and sep = "[]"
        and raw = ?worse and pre = "[''a:1'']" and bad = "''b:x''" and rest = "[''c'']"
        and e = "NumError ''Atoi'' ''x'' ErrSyntax"]
      toks(3) wf(2) x
    by blast
  ultimately show ?thesis using m(1) by blast
qed

theorem unnamed_malformed_pair_counterexample:
  "set_val initial (TMap TString TInt) (VMap None) ''a:x;b'' []
     = (VMap None, Some (NumError ''Atoi'' ''x'' ErrSyntax)) \<and>
   ''b'' \<in> set (pairTokens initial ''a:x;b'' []) \<and> CHR '':'' \<notin> set ''b''"
  by (simp add: pairTokens_def resolved_def initial_def Split_cut SplitN_colon_2 pairKey_def
      pairValue_def number_eval)

section \<open>A coercion that fails\<close>


lemmas decoder_eval =
  tagged_def assign_def Get_def Join_def List.map_filter_simps effective_def






section \<open>Raw entries\<close>

lemma environLoop_malformed:
  "\<exists>s \<in> set env. CHR ''='' \<notin> set s \<Longrightarrow> environLoop m env = Inl ErrInvalidEnviron"
  by (induction env arbitrary: m) (auto simp: SplitN_single_2)

lemma environLoop_wellformed:
  "\<forall>s \<in> set env. CHR ''='' \<in> set s \<Longrightarrow>
   environLoop m env = Inr (m ++ map_of (rev (map (\<lambda>s. (entryKey s, entryValue s)) env)))"
proof (induction env arbitrary: m)
  case Nil
  then show ?case by simp
next
  case (Cons s env)
  let ?e = "\<lambda>s. (entryKey s, entryValue s)"
  from Cons.prems have s: "CHR ''='' \<in> set s" and rest: "\<forall>s \<in> set env. CHR ''='' \<in> set s"
    by simp_all
  have "environLoop m (s # env) = environLoop (m(entryKey s \<mapsto> entryValue s)) env"
    using s by (simp add: SplitN_single_2 entryKey_def entryValue_def)
  also have "\<dots> = Inr (m(entryKey s \<mapsto> entryValue s) ++ map_of (rev (map ?e env)))"
    by (rule Cons.IH [OF rest])
  also have "m(entryKey s \<mapsto> entryValue s) ++ map_of (rev (map ?e env))
      = m ++ map_of (rev (map ?e (s # env)))"
    by (simp add: map_add_assoc [symmetric])
  finally show ?case .
qed

text \<open>
  C7.  Converting raw entries: if any line has no \<open>=\<close>, wherever it stands, the
  conversion fails with \<open>ErrInvalidEnviron\<close> and yields no mapping.  Otherwise it yields
  the mapping that sends each key (the line up to its first \<open>=\<close>) to the value (all that
  follows that \<open>=\<close>, verbatim) of the last line with that key; its size is the number
  of distinct keys.
\<close>

theorem EnvironToMap_batch:
  "((\<exists>s \<in> set env. CHR ''='' \<notin> set s) \<longrightarrow> EnvironToMap env = Inl ErrInvalidEnviron) \<and>
   ((\<forall>s \<in> set env. CHR ''='' \<in> set s) \<longrightarrow>
      (\<exists>m. EnvironToMap env = Inr m \<and>
           m = map_of (rev (map (\<lambda>s. (entryKey s, entryValue s)) env)) \<and>
           dom m = entryKey ` set env \<and>
           card (dom m) = card (entryKey ` set env) \<and>
           (\<forall>i < length env.
              (\<forall>j. i < j \<and> j < length env \<longrightarrow> entryKey (env ! j) \<noteq> entryKey (env ! i)) \<longrightarrow>
              m (entryKey (env ! i)) = Some (entryValue (env ! i)))))"
proof (intro conjI impI)
  assume "\<exists>s \<in> set env. CHR ''='' \<notin> set s"
  then show "EnvironToMap env = Inl ErrInvalidEnviron"
    unfolding EnvironToMap_def by (rule environLoop_malformed)
next
  let ?ps = "map (\<lambda>s. (entryKey s, entryValue s)) env"
  let ?m = "map_of (rev ?ps)"
  assume wf: "\<forall>s \<in> set env. CHR ''='' \<in> set s"
  have run: "EnvironToMap env = Inr ?m"
    unfolding EnvironToMap_def using environLoop_wellformed [OF wf, of Map.empty] by simp
  have dom: "dom ?m = entryKey ` set env"
    by (simp add: dom_map_of_conv_image_fst image_image)
  have last: "?m (entryKey (env ! i)) = Some (entryValue (env ! i))"
    if "i < length env"
      and "\<forall>j. i < j \<and> j < length env \<longrightarrow> entryKey (env ! j) \<noteq> entryKey (env ! i)" for i
    using map_of_rev_last_occurrence [of i ?ps] that by simp
  show "\<exists>m. EnvironToMap env = Inr m \<and> m = ?m \<and> dom m = entryKey ` set env \<and>
          card (dom m) = card (entryKey ` set env) \<and>
          (\<forall>i < length env.
             (\<forall>j. i < j \<and> j < length env \<longrightarrow> entryKey (env ! j) \<noteq> entryKey (env ! i)) \<longrightarrow>
             m (entryKey (env ! i)) = Some (entryValue (env ! i)))"
    using run dom last by auto
qed

theorem EnvironToMap_batch_witness:
  "(\<exists>m. EnvironToMap [''A=1'', ''B=x=y'', ''A=2''] = Inr m \<and>
        m ''A'' = Some ''2'' \<and> m ''B'' = Some ''x=y'' \<and> card (dom m) = 2) \<and>
   EnvironToMap [''A=1'', ''B'', ''C=3''] = Inl ErrInvalidEnviron"
proof -
  have wf: "\<forall>s \<in> set [''A=1'', ''B=x=y'', ''A=2'']. CHR ''='' \<in> set s" by simp
  have bad: "\<exists>s \<in> set [''A=1'', ''B'', ''C=3'']. CHR ''='' \<notin> set s" by simp
  have keys: "entryKey ` set [''A=1'', ''B=x=y'', ''A=2''] = {''A'', ''B''}"
    by (auto simp: entryKey_def)
  from EnvironToMap_batch [of "[''A=1'', ''B=x=y'', ''A=2'']"] wf
  obtain m where m: "EnvironToMap [''A=1'', ''B=x=y'', ''A=2''] = Inr m"
    "m = map_of (rev (map (\<lambda>s. (entryKey s, entryValue s)) [''A=1'', ''B=x=y'', ''A=2'']))"
    "card (dom m) = card (entryKey ` set [''A=1'', ''B=x=y'', ''A=2''])"
    by blast
  have "m ''A'' = Some ''2''" "m ''B'' = Some ''x=y''"
    using m(2) by (simp_all add: entryKey_def entryValue_def)
  moreover have "card (dom m) = 2" using m(3) keys by simp
  moreover have "EnvironToMap [''A=1'', ''B'', ''C=3''] = Inl ErrInvalidEnviron"
    using EnvironToMap_batch [of "[''A=1'', ''B'', ''C=3'']"] bad by blast
  ultimately show ?thesis using m(1) by blast
qed

section \<open>The validation hook\<close>

text \<open>
  C3.  When the walk returns no error and a validator is registered, \<open>Unmarshal\<close> calls
  its \<open>Struct\<close> once, on the populated record, and returns what it returns (nil or
  not).  When the walk returns an error, \<open>Unmarshal\<close> returns that error and does not
  call the validator.  With no validator registered it returns the walk's result.
\<close>

theorem validation_hook:
  "(unmarshal W envs v = (v', envs', None) \<and> validator W = Some val \<longrightarrow>
      Unmarshal W envs v
        = \<lparr>returned = val v', target = v', mapping = envs', validated = [v']\<rparr>) \<and>
   (unmarshal W envs v = (v', envs', Some e) \<longrightarrow>
      Unmarshal W envs v
        = \<lparr>returned = Some e, target = v', mapping = envs', validated = []\<rparr>) \<and>
   (unmarshal W envs v = (v', envs', None) \<and> validator W = None \<longrightarrow>
      Unmarshal W envs v
        = \<lparr>returned = None, target = v', mapping = envs', validated = []\<rparr>)"
  by (simp add: Unmarshal_def)

lemma parseTag_NAME_required: "parseTag W ''NAME,required''
    = \<lparr>Key = ''NAME'', Default = [], Required = True, Sep = Separator W\<rparr>"
  by (simp add: tag_eval)

theorem validation_hook_witness:
  "Unmarshal (initial\<lparr>validator := Some (\<lambda>v. Some (ErrorString ''validation failed''))\<rparr>)
       [''NAME'' \<mapsto> ''test'']
       (Pointer (Struct [SField ''Name'' True [(''env'', ''NAME,required'')]
                          (Leaf TString (VString []))]))
     = \<lparr>returned = Some (ErrorString ''validation failed''),
        target = Pointer (Struct [SField ''Name'' True [(''env'', ''NAME,required'')]
                                   (Leaf TString (VString ''test''))]),
        mapping = Map.empty,
        validated = [Pointer (Struct [SField ''Name'' True [(''env'', ''NAME,required'')]
                                       (Leaf TString (VString ''test''))])]\<rparr> \<and>
   Unmarshal (initial\<lparr>validator := Some (\<lambda>v. Some (ErrorString ''validation failed''))\<rparr>)
       Map.empty
       (Pointer (Struct [SField ''Name'' True [(''env'', ''NAME,required'')]
                          (Leaf TString (VString []))]))
     = \<lparr>returned = Some (JoinError [RequiredNotFound ''NAME'']),
        target = Pointer (Struct [SField ''Name'' True [(''env'', ''NAME,required'')]
                                   (Leaf TString (VString []))]),
        mapping = Map.empty, validated = []\<rparr>"
proof -
  let ?val = "\<lambda>v::iface. Some (ErrorString ''validation failed'')"
  let ?W = "initial\<lparr>validator := Some ?val\<rparr>"
  let ?f = "\<lambda>s. SField ''Name'' True [(''env'', ''NAME,required'')] (Leaf TString (VString s))"
  have W: "Tag ?W = ''env''" "validator ?W = Some ?val" by (simp_all add: initial_def)
  have ok: "unmarshal ?W [''NAME'' \<mapsto> ''test''] (Pointer (Struct [?f []]))
      = (Pointer (Struct [?f ''test'']), Map.empty, None)"
    by (simp add: decoder_eval W parseTag_NAME_required)
  have ko: "unmarshal ?W Map.empty (Pointer (Struct [?f []]))
      = (Pointer (Struct [?f []]), Map.empty, Some (JoinError [RequiredNotFound ''NAME'']))"
    by (simp add: decoder_eval W parseTag_NAME_required)
  from validation_hook [where W = ?W and envs = "[''NAME'' \<mapsto> ''test'']"
      and v = "Pointer (Struct [?f []])" and v' = "Pointer (Struct [?f ''test''])"
      and envs' = Map.empty and val = ?val] ok W(2)
    validation_hook [where W = ?W and envs = Map.empty
      and v = "Pointer (Struct [?f []])" and v' = "Pointer (Struct [?f []])"
      and envs' = Map.empty and e = "JoinError [RequiredNotFound ''NAME'']"] ko
  show ?thesis by simp
qed

section \<open>The process environment\<close>

lemma ToLower_Environ [simp]: "ToLower (W\<lparr>os_Environ := e\<rparr>) = ToLower W"
  by (simp add: ToLower_def fun_eq_iff)

lemma trimSpaceRight_Environ [simp]: "trimSpaceRight (W\<lparr>os_Environ := e\<rparr>) s = trimSpaceRight W s"
  by (induction s) simp_all

lemma TrimSpace_Environ [simp]: "TrimSpace (W\<lparr>os_Environ := e\<rparr>) s = TrimSpace W s"
  by (induction s) simp_all

lemma envFileLoop_Environ [simp]: "envFileLoop (W\<lparr>os_Environ := e\<rparr>) ls = envFileLoop W ls"
  by (induction ls) (simp_all add: Let_def)

lemma parseEnvFile_Environ [simp]: "parseEnvFile (W\<lparr>os_Environ := e\<rparr>) = parseEnvFile W"
  by (simp add: parseEnvFile_def fun_eq_iff)

lemma modifier_Environ [simp]: "modifier (W\<lparr>os_Environ := e\<rparr>) = modifier W"
  by (simp add: modifier_def fun_eq_iff Let_def cong: if_cong)

lemma parseTag_Environ [simp]: "parseTag (W\<lparr>os_Environ := e\<rparr>) = parseTag W"
  by (simp add: parseTag_def fun_eq_iff)

lemma Atoi_Environ [simp]: "Atoi (W\<lparr>os_Environ := e\<rparr>) = Atoi W"
  by (simp add: Atoi_def fun_eq_iff Let_def cong: list.case_cong sum.case_cong if_cong)

lemma bits_Environ [simp]: "bits (W\<lparr>os_Environ := e\<rparr>) t = bits W t"
  by (cases t) simp_all

lemma setInt_Environ [simp]: "setInt (W\<lparr>os_Environ := e\<rparr>) = setInt W"
  by (simp add: setInt_def fun_eq_iff cong: sum.case_cong)

lemma setUint_Environ [simp]: "setUint (W\<lparr>os_Environ := e\<rparr>) = setUint W"
  by (simp add: setUint_def fun_eq_iff cong: sum.case_cong)

lemma set_val_Environ [simp]: "set_val (W\<lparr>os_Environ := e\<rparr>) t f v sep = set_val W t f v sep"
  by (induction t arbitrary: f v sep) (simp_all add: Let_def cong: if_cong)

lemma setContent_Environ [simp]: "setContent (W\<lparr>os_Environ := e\<rparr>) c = setContent W c"
  by (cases c) (simp_all add: fun_eq_iff)

lemma assign_Environ [simp]: "assign (W\<lparr>os_Environ := e\<rparr>) = assign W"
  by (simp add: assign_def fun_eq_iff)

lemma tagged_Environ [simp]: "tagged (W\<lparr>os_Environ := e\<rparr>) = tagged W"
  by (simp add: tagged_def fun_eq_iff Let_def cong: if_cong option.case_cong)

lemma unmarshalFields_Environ:
  "unmarshalFields (W\<lparr>os_Environ := e\<rparr>) fs envs err = unmarshalFields W fs envs err"
  and unmarshalField_Environ:
  "unmarshalField (W\<lparr>os_Environ := e\<rparr>) f envs err = unmarshalField W f envs err"
proof (induction W fs envs err and W f envs err rule: unmarshalFields_unmarshalField.induct)
  case (1 W envs err)
  show ?case by simp
next
  case (2 W f fs envs err)
  then show ?case by (simp split: prod.splits)
next
  case (3 W name exported tags t v envs err)
  show ?case by simp
next
  case (4 W name exported tags sub envs err)
  then show ?case by simp
qed

lemma unmarshal_Environ [simp]: "unmarshal (W\<lparr>os_Environ := e\<rparr>) envs v = unmarshal W envs v"
  by (cases "(W, envs, v)" rule: unmarshal.cases) (simp_all add: unmarshalFields_Environ)

lemma Unmarshal_Environ [simp]: "Unmarshal (W\<lparr>os_Environ := e\<rparr>) envs v = Unmarshal W envs v"
  by (simp add: Unmarshal_def)

text \<open>
  C8.  The decode from a file alone gives, for the same file system, the same record,
  the same error and the same validator calls whatever the process environment holds:
  \<open>os.Environ\<close> is not read.  (The validator is a function of the record it is given.)
\<close>

theorem file_only_ignores_environment:
  "UnmarshalFromFileOnly (W\<lparr>os_Environ := envA\<rparr>) path v
     = UnmarshalFromFileOnly (W\<lparr>os_Environ := envB\<rparr>) path v"
  by (simp add: UnmarshalFromFileOnly_def Let_def cong: sum.case_cong)

lemma parseTag_FILE_KEY: "parseTag W ''FILE_KEY''
    = \<lparr>Key = ''FILE_KEY'', Default = [], Required = False, Sep = Separator W\<rparr>"
  by (simp add: tag_eval)

lemma parseTag_SYSTEM_KEY: "parseTag W ''SYSTEM_KEY''
    = \<lparr>Key = ''SYSTEM_KEY'', Default = [], Required = False, Sep = Separator W\<rparr>"
  by (simp add: tag_eval)

theorem file_only_ignores_environment_witness:
  "UnmarshalFromFileOnly
       (initial\<lparr>os_ReadFile := (\<lambda>path. Inr (''FILE_KEY=file_value'' @ [CHR 0x0A])),
                os_Environ := [''SYSTEM_KEY=system_value'']\<rparr>)
       ''.env''
       (Pointer (Struct
          [SField ''FileKey'' True [(''env'', ''FILE_KEY'')] (Leaf TString (VString [])),
           SField ''SystemKey'' True [(''env'', ''SYSTEM_KEY'')] (Leaf TString (VString []))]))
     = \<lparr>returned = None,
        target = Pointer (Struct
          [SField ''FileKey'' True [(''env'', ''FILE_KEY'')] (Leaf TString (VString ''file_value'')),
           SField ''SystemKey'' True [(''env'', ''SYSTEM_KEY'')] (Leaf TString (VString []))]),
        mapping = Map.empty,
        validated = []\<rparr>"
proof -
  let ?W = "initial\<lparr>os_ReadFile := (\<lambda>path. Inr (''FILE_KEY=file_value'' @ [CHR 0x0A]))\<rparr>"
  let ?v = "Pointer (Struct
          [SField ''FileKey'' True [(''env'', ''FILE_KEY'')] (Leaf TString (VString [])),
           SField ''SystemKey'' True [(''env'', ''SYSTEM_KEY'')] (Leaf TString (VString []))])"
  have "UnmarshalFromFileOnly (?W\<lparr>os_Environ := []\<rparr>) ''.env'' ?v
     = \<lparr>returned = None,
        target = Pointer (Struct
          [SField ''FileKey'' True [(''env'', ''FILE_KEY'')] (Leaf TString (VString ''file_value'')),
           SField ''SystemKey'' True [(''env'', ''SYSTEM_KEY'')] (Leaf TString (VString []))]),
        mapping = Map.empty,
        validated = []\<rparr>"
    by (simp add: UnmarshalFromFileOnly_def parseEnvFile_def Split_cut TrimRight_def
        asciiSpace_def HasPrefix_def Let_def EnvironToMap_def SplitN_single_2 Unmarshal_def
        decoder_eval initial_def parseTag_FILE_KEY parseTag_SYSTEM_KEY)
  with file_only_ignores_environment [where W = ?W and envA = "[''SYSTEM_KEY=system_value'']"
      and path = "''.env''" and v = ?v and envB = "[]"]
  show ?thesis by simp
qed

section \<open>Integer fields\<close>

lemma wrapSigned_word:
  "wrapSigned LENGTH('a::len) x = sint (word_of_int x :: 'a word)"
proof -
  have "LENGTH('a) = Suc (LENGTH('a) - 1)" by simp
  then show ?thesis
    unfolding wrapSigned_def sint_sbintrunc' signed_take_bit_eq_take_bit_shift take_bit_eq_mod
    by simp
qed

lemma wrapUnsigned_word:
  "wrapUnsigned LENGTH('a::len) n = unat (word_of_nat n :: 'a word)"
  by (simp add: wrapUnsigned_def unat_of_nat)

lemma Atoi_300: "Atoi initial ''300'' = Inr 300"
  by (simp add: Atoi_def initial_def isDigit_def digitVal_def)

lemma ParseUint_256: "ParseUint ''256'' 64 = Inr 256"
  by (simp add: ParseUint_def isDigit_def digitVal_def)

text \<open>
  C10.  A field of a signed integer type of 8, 16 or 32 bits takes whatever \<open>Atoi\<close>
  parses (at the platform's \<open>int\<close> precision), and a field of an unsigned type narrower
  than 64 bits whatever \<open>ParseUint\<close> parses at 64 bits: there is no range check against
  the field's type, no error, and the field holds the parsed value cut to the field's
  width, that is the value of the low \<open>w\<close> bits (two's complement for the signed types).
\<close>

theorem narrow_integer_truncated:
  "(Atoi W value = Inr v \<longrightarrow>
      set_val W TInt8 f value sep = (VInt (sint (word_of_int v :: 8 word)), None) \<and>
      set_val W TInt16 f value sep = (VInt (sint (word_of_int v :: 16 word)), None) \<and>
      set_val W TInt32 f value sep = (VInt (sint (word_of_int v :: 32 word)), None)) \<and>
   (ParseUint value 64 = Inr n \<longrightarrow>
      set_val W TUint8 f value sep = (VUint (unat (word_of_nat n :: 8 word)), None) \<and>
      set_val W TUint16 f value sep = (VUint (unat (word_of_nat n :: 16 word)), None) \<and>
      set_val W TUint32 f value sep = (VUint (unat (word_of_nat n :: 32 word)), None) \<and>
      set_val W TUint f value sep = (VUint (n mod 2 ^ strconv_IntSize W), None))"
proof (intro conjI impI)
  assume a: "Atoi W value = Inr v"
  show "set_val W TInt8 f value sep = (VInt (sint (word_of_int v :: 8 word)), None)"
    using a wrapSigned_word [where 'a = 8, of v] by (simp add: setInt_def)
  show "set_val W TInt16 f value sep = (VInt (sint (word_of_int v :: 16 word)), None)"
    using a wrapSigned_word [where 'a = 16, of v] by (simp add: setInt_def)
  show "set_val W TInt32 f value sep = (VInt (sint (word_of_int v :: 32 word)), None)"
    using a wrapSigned_word [where 'a = 32, of v] by (simp add: setInt_def)
next
  assume p: "ParseUint value 64 = Inr n"
  show "set_val W TUint8 f value sep = (VUint (unat (word_of_nat n :: 8 word)), None)"
    using p wrapUnsigned_word [where 'a = 8, of n] by (simp add: setUint_def)
  show "set_val W TUint16 f value sep = (VUint (unat (word_of_nat n :: 16 word)), None)"
    using p wrapUnsigned_word [where 'a = 16, of n] by (simp add: setUint_def)
  show "set_val W TUint32 f value sep = (VUint (unat (word_of_nat n :: 32 word)), None)"
    using p wrapUnsigned_word [where 'a = 32, of n] by (simp add: setUint_def)
  show "set_val W TUint f value sep = (VUint (n mod 2 ^ strconv_IntSize W), None)"
    using p by (simp add: setUint_def wrapUnsigned_def)
qed

theorem narrow_integer_truncated_witness:
  "set_val initial TInt8 (VInt 0) ''300'' [] = (VInt 44, None) \<and>
   set_val initial TUint8 (VUint 0) ''256'' [] = (VUint 0, None)"
  using narrow_integer_truncated [of initial "''300''" 300 "VInt 0" "[]" 256]
    narrow_integer_truncated [of initial "''256''" 300 "VUint 0" "[]" 256]
    Atoi_300 ParseUint_256
  by simp

section \<open>A required field that is missing\<close>

lemma required_missing_walk:
  assumes "field_at p fs = Some (SField name True tags (Leaf t v))"
    and "Get tags (Tag W) \<noteq> []"
    and "Required (parseTag W (Get tags (Tag W)))"
    and "Default (parseTag W (Get tags (Tag W))) = []"
    and "envs (Key (parseTag W (Get tags (Tag W)))) = None"
    and "unmarshalFields W fs envs err = (fs', envs', err')"
    and "unmarshalFields W (delete_at p fs) envs err0 = (gs', envs0', err0')"
  shows "RequiredNotFound (Key (parseTag W (Get tags (Tag W)))) \<in> leaves_of err' \<and>
         field_at p fs' = Some (SField name True tags (Leaf t v)) \<and>
         delete_at p fs' = gs' \<and> envs' = envs0'"
  using assms(1,5-7)
proof (induction p arbitrary: fs envs err err0 fs' envs' err' gs' envs0' err0')
  case Nil
  then show ?case by simp
next
  case (Cons i q)
  let ?g = "SField name True tags (Leaf t v)"
  let ?key = "Key (parseTag W (Get tags (Tag W)))"
  let ?pre = "take i fs" and ?x = "fs ! i" and ?post = "drop (Suc i) fs"
  from Cons.prems(1) have i: "i < length fs"
    by (simp split: if_splits)
  obtain pre' e1 r1 where A: "unmarshalFields W ?pre envs err = (pre', e1, r1)"
    by (cases "unmarshalFields W ?pre envs err") auto
  obtain x' e2 r2 where B: "unmarshalField W ?x e1 r1 = (x', e2, r2)"
    by (cases "unmarshalField W ?x e1 r1") auto
  obtain post' e3 r3 where C: "unmarshalFields W ?post e2 r2 = (post', e3, r3)"
    by (cases "unmarshalFields W ?post e2 r2") auto
  from walk_at [OF i A B C] Cons.prems(3)
  have res: "fs' = pre' @ x' # post'" "envs' = e3" "err' = r3" by simp_all
  from unmarshalFields_length [OF A] i have len: "length pre' = i" by simp
  from walk_grows [OF A] Cons.prems(2) have abs1: "e1 ?key = None"
    by (auto intro: map_le_absent)
  from walk_grows [OF C] have grow: "leaves_of r2 \<subseteq> leaves_of r3" by simp
  from walk_ignores_err' [OF A, of err0]
  obtain r1' where A0: "unmarshalFields W ?pre envs err0 = (pre', e1, r1')" by blast
  show ?case
  proof (cases "q = []")
    case True
    with Cons.prems(1) i have x: "?x = ?g" by simp
    from step_required_missing [where W = W and tags = tags and envs = e1 and name = name
        and t = t and v = v and err = r1, OF assms(2-4) abs1] B x
    have B': "x' = ?g" "e2 = e1" "r2 = Join [r1, Some (RequiredNotFound ?key)]" by simp_all
    from walk_ignores_err' [OF C, of r1'] B'
    obtain r3' where C0: "unmarshalFields W ?post e1 r1' = (post', e3, r3')" by auto
    from True i have "delete_at (i # q) fs = ?pre @ ?post" by simp
    with A0 C0 Cons.prems(4) have "gs' = pre' @ post'" "envs0' = e3"
      by (simp_all add: unmarshalFields_append)
    moreover have "RequiredNotFound ?key \<in> leaves_of err'"
      using grow B' res by auto
    moreover have "field_at (i # q) fs' = Some ?g"
      using True res len B' by (simp add: nth_append)
    moreover have "delete_at (i # q) fs' = pre' @ post'"
      using True res len by simp
    ultimately show ?thesis using res by simp
  next
    case False
    with Cons.prems(1) i obtain n tg sub where x: "?x = SField n True tg (Struct sub)"
      and inner: "field_at q sub = Some ?g"
      by (cases "fs ! i"; cases "Content (fs ! i)") (auto split: sfield.splits content.splits if_splits)
    obtain sub1 es u where D: "unmarshalFields W sub e1 None = (sub1, es, u)"
      by (cases "unmarshalFields W sub e1 None") auto
    obtain sub0 es0 u0 where D0: "unmarshalFields W (delete_at q sub) e1 None = (sub0, es0, u0)"
      by (cases "unmarshalFields W (delete_at q sub) e1 None") auto
    from Cons.IH [OF inner abs1 D D0]
    have ih: "RequiredNotFound ?key \<in> leaves_of u" "field_at q sub1 = Some ?g"
      "delete_at q sub1 = sub0" "es = es0" by simp_all
    from ih(1) obtain ue where u: "u = Some ue" by (cases u) auto
    from step_Struct_exported [OF D, of n tg r1] B x u
    have B': "x' = SField n True tg (Struct sub1)" "e2 = es" "r2 = Join [r1, Some ue]"
      by auto
    let ?x0 = "SField n True tg (Struct (delete_at q sub))"
    from step_Struct_exported [OF D0, of n tg r1'] ih(4)
    obtain r2' where B0: "unmarshalField W ?x0 e1 r1' = (SField n True tg (Struct sub0), es, r2')"
      by auto
    from walk_ignores_err' [OF C, of r2'] B'
    obtain r3' where C0: "unmarshalFields W ?post es r2' = (post', e3, r3')" by auto
    from False i x have "delete_at (i # q) fs = ?pre @ ?x0 # ?post"
      by (simp add: upd_conv_take_nth_drop)
    with A0 B0 C0 Cons.prems(4)
    have "gs' = pre' @ SField n True tg (Struct sub0) # post'" "envs0' = e3"
      by (simp_all add: unmarshalFields_append)
    moreover have "RequiredNotFound ?key \<in> leaves_of err'"
    proof -
      from ih(1) u have "RequiredNotFound ?key \<in> set (leaves ue)"
        by (simp add: leaves_of_def)
      with B' have "RequiredNotFound ?key \<in> leaves_of r2" by simp
      with grow res show ?thesis by auto
    qed
    moreover have "field_at (i # q) fs' = Some ?g"
      using False res len B' ih(2) by (simp add: nth_append)
    moreover have "delete_at (i # q) fs' = pre' @ SField n True tg (Struct sub0) # post'"
      using False res len B' ih(3) by (simp add: nth_append list_update_append)
    ultimately show ?thesis using res by simp
  qed
qed

text \<open>
  C1, as the code has it.  Take an annotated field of a kind other than Struct that is
  exported and that the walk reaches through exported embedded records only (it stands
  at path \<open>p\<close>), that is required and has no default, and whose key is not in the
  mapping.  Then the decode returns an aggregate error that enumerates "required field
  not found" with that key, the field is as it was, and every other field and the
  mapping come out exactly as from the decode of the record without that field: the
  walk goes on, at the level of the field and at the levels around it.  In particular
  every field reached in the same way whose effective value coerces holds the coerced
  value afterwards, provided its key has no entry or is the key of no other reached
  field.

  The fields this does not hold for: an embedded record in an unexported field is
  passed over, with no error; an unexported annotated field of another kind gets the
  error "not exported" and nothing else; and an exported field of kind Struct whose
  embedded record fails to decode contributes the embedded errors only, its own
  annotation not being looked at.
\<close>

theorem required_field_missing:
  "(field_at p fs = Some (SField name True tags (Leaf t v)) \<and>
    Get tags (Tag W) \<noteq> [] \<and>
    Required (parseTag W (Get tags (Tag W))) \<and>
    Default (parseTag W (Get tags (Tag W))) = [] \<and>
    envs (Key (parseTag W (Get tags (Tag W)))) = None \<longrightarrow>
      (\<exists>fs' envs' e e0.
         unmarshal W envs (Pointer (Struct fs)) = (Pointer (Struct fs'), envs', Some e) \<and>
         RequiredNotFound (Key (parseTag W (Get tags (Tag W)))) \<in> set (leaves e) \<and>
         field_at p fs' = Some (SField name True tags (Leaf t v)) \<and>
         unmarshal W envs (Pointer (Struct (delete_at p fs)))
           = (Pointer (Struct (delete_at p fs')), envs', e0) \<and>
         (\<forall>q sname stags st sv ev sv'.
            field_at q fs = Some (SField sname True stags (Leaf st sv)) \<and>
            Get stags (Tag W) \<noteq> [] \<and>
            effective (parseTag W (Get stags (Tag W))) envs = Some ev \<and>
            set_val W st sv ev (Sep (parseTag W (Get stags (Tag W)))) = (sv', None) \<and>
            (envs (Key (parseTag W (Get stags (Tag W)))) \<noteq> None \<longrightarrow>
               Key (parseTag W (Get stags (Tag W))) \<notin> fieldKeys W (delete_at q fs)) \<longrightarrow>
              field_at q fs' = Some (SField sname True stags (Leaf st sv'))))) \<and>
   unmarshalField W (SField uname False utags (Struct usub)) uenvs uerr
     = (SField uname False utags (Struct usub), uenvs, uerr) \<and>
   (Get utags (Tag W) \<noteq> [] \<longrightarrow>
      unmarshalField W (SField uname False utags (Leaf ut uv)) uenvs uerr
        = (SField uname False utags (Leaf ut uv), uenvs,
           Join [uerr, Some (FieldNotExported uname)])) \<and>
   (unmarshalFields W usub uenvs None = (usub', uenvs', Some ue) \<longrightarrow>
      unmarshalField W (SField uname True utags (Struct usub)) uenvs uerr
        = (SField uname True utags (Struct usub'), uenvs', Join [uerr, Some ue]))"
proof (intro conjI impI)
  let ?key = "Key (parseTag W (Get tags (Tag W)))"
  assume a: "field_at p fs = Some (SField name True tags (Leaf t v)) \<and>
    Get tags (Tag W) \<noteq> [] \<and>
    Required (parseTag W (Get tags (Tag W))) \<and>
    Default (parseTag W (Get tags (Tag W))) = [] \<and>
    envs ?key = None"
  obtain fs' envs' err' where run: "unmarshalFields W fs envs None = (fs', envs', err')"
    by (cases "unmarshalFields W fs envs None") auto
  obtain gs' envs0' err0' where
    run0: "unmarshalFields W (delete_at p fs) envs None = (gs', envs0', err0')"
    by (cases "unmarshalFields W (delete_at p fs) envs None") auto
  from a required_missing_walk [where p = p and fs = fs and name = name and tags = tags
      and t = t and v = v and W = W and envs = envs, OF _ _ _ _ _ run run0]
  have r: "RequiredNotFound ?key \<in> leaves_of err'"
    "field_at p fs' = Some (SField name True tags (Leaf t v))"
    "delete_at p fs' = gs'" "envs' = envs0'"
    by simp_all
  from r(1) obtain e where e: "err' = Some e" "RequiredNotFound ?key \<in> set (leaves e)"
    by (cases err') (auto simp: leaves_of_def)
  have others: "field_at q fs' = Some (SField sname True stags (Leaf st sv'))"
    if "field_at q fs = Some (SField sname True stags (Leaf st sv)) \<and>
        Get stags (Tag W) \<noteq> [] \<and>
        effective (parseTag W (Get stags (Tag W))) envs = Some ev \<and>
        set_val W st sv ev (Sep (parseTag W (Get stags (Tag W)))) = (sv', None) \<and>
        (envs (Key (parseTag W (Get stags (Tag W)))) \<noteq> None \<longrightarrow>
           Key (parseTag W (Get stags (Tag W))) \<notin> fieldKeys W (delete_at q fs))"
    for q sname stags st sv ev sv'
    using that populated_walk [where q = q and fs = fs and name = sname and tags = stags
        and t = st and v = sv and W = W and ev = ev and v' = sv' and envs = envs, OF _ _ _ _ _ run]
    by blast
  from run run0 r e
  have "unmarshal W envs (Pointer (Struct fs)) = (Pointer (Struct fs'), envs', Some e) \<and>
     RequiredNotFound ?key \<in> set (leaves e) \<and>
     field_at p fs' = Some (SField name True tags (Leaf t v)) \<and>
     unmarshal W envs (Pointer (Struct (delete_at p fs)))
       = (Pointer (Struct (delete_at p fs')), envs', err0')"
    by simp
  with others show "\<exists>fs' envs' e e0.
     unmarshal W envs (Pointer (Struct fs)) = (Pointer (Struct fs'), envs', Some e) \<and>
     RequiredNotFound ?key \<in> set (leaves e) \<and>
     field_at p fs' = Some (SField name True tags (Leaf t v)) \<and>
     unmarshal W envs (Pointer (Struct (delete_at p fs)))
       = (Pointer (Struct (delete_at p fs')), envs', e0) \<and>
     (\<forall>q sname stags st sv ev sv'.
        field_at q fs = Some (SField sname True stags (Leaf st sv)) \<and>
        Get stags (Tag W) \<noteq> [] \<and>
        effective (parseTag W (Get stags (Tag W))) envs = Some ev \<and>
        set_val W st sv ev (Sep (parseTag W (Get stags (Tag W)))) = (sv', None) \<and>
        (envs (Key (parseTag W (Get stags (Tag W)))) \<noteq> None \<longrightarrow>
           Key (parseTag W (Get stags (Tag W))) \<notin> fieldKeys W (delete_at q fs)) \<longrightarrow>
          field_at q fs' = Some (SField sname True stags (Leaf st sv')))"
    by blast
next
  show "unmarshalField W (SField uname False utags (Struct usub)) uenvs uerr
     = (SField uname False utags (Struct usub), uenvs, uerr)"
    by simp
next
  assume "Get utags (Tag W) \<noteq> []"
  then show "unmarshalField W (SField uname False utags (Leaf ut uv)) uenvs uerr
        = (SField uname False utags (Leaf ut uv), uenvs,
           Join [uerr, Some (FieldNotExported uname)])"
    by (simp add: tagged_def)
next
  assume "unmarshalFields W usub uenvs None = (usub', uenvs', Some ue)"
  then show "unmarshalField W (SField uname True utags (Struct usub)) uenvs uerr
        = (SField uname True utags (Struct usub'), uenvs', Join [uerr, Some ue])"
    by simp
qed

lemma parseTag_DB_HOST_required: "parseTag W ''DB_HOST,required''
    = \<lparr>Key = ''DB_HOST'', Default = [], Required = True, Sep = Separator W\<rparr>"
  by (simp add: tag_eval)

lemma parseTag_PORT_default: "parseTag W ''PORT,default=8080''
    = \<lparr>Key = ''PORT'', Default = ''8080'', Required = False, Sep = Separator W\<rparr>"
  by (simp add: tag_eval)

lemma parseTag_DB_required: "parseTag W ''DB,required''
    = \<lparr>Key = ''DB'', Default = [], Required = True, Sep = Separator W\<rparr>"
  by (simp add: tag_eval)

theorem required_field_missing_witness:
  "unmarshal initial [''PORT'' \<mapsto> ''3000'']
      (Pointer (Struct
        [SField ''Database'' True []
           (Struct [SField ''Host'' True [(''env'', ''DB_HOST,required'')]
                      (Leaf TString (VString []))]),
         SField ''Port'' True [(''env'', ''PORT,default=8080'')] (Leaf TInt (VInt 0))]))
     = (Pointer (Struct
        [SField ''Database'' True []
           (Struct [SField ''Host'' True [(''env'', ''DB_HOST,required'')]
                      (Leaf TString (VString []))]),
         SField ''Port'' True [(''env'', ''PORT,default=8080'')] (Leaf TInt (VInt 3000))]),
        Map.empty, Some (JoinError [JoinError [RequiredNotFound ''DB_HOST'']])) \<and>
   RequiredNotFound ''DB_HOST''
     \<in> set (leaves (JoinError [JoinError [RequiredNotFound ''DB_HOST'']])) \<and>
   unmarshal initial [''PORT'' \<mapsto> ''3000'']
      (Pointer (Struct
        [SField ''Database'' True [] (Struct []),
         SField ''Port'' True [(''env'', ''PORT,default=8080'')] (Leaf TInt (VInt 0))]))
     = (Pointer (Struct
        [SField ''Database'' True [] (Struct []),
         SField ''Port'' True [(''env'', ''PORT,default=8080'')] (Leaf TInt (VInt 3000))]),
        Map.empty, None) \<and>
   unmarshalField initial
      (SField ''db'' False []
         (Struct [SField ''Host'' True [(''env'', ''DB_HOST,required'')]
                    (Leaf TString (VString []))]))
      Map.empty None
     = (SField ''db'' False []
         (Struct [SField ''Host'' True [(''env'', ''DB_HOST,required'')]
                    (Leaf TString (VString []))]),
        Map.empty, None) \<and>
   unmarshalField initial
      (SField ''host'' False [(''env'', ''DB_HOST,required'')] (Leaf TString (VString [])))
      Map.empty None
     = (SField ''host'' False [(''env'', ''DB_HOST,required'')] (Leaf TString (VString [])),
        Map.empty, Some (JoinError [FieldNotExported ''host''])) \<and>
   unmarshalField initial
      (SField ''DB'' True [(''env'', ''DB,required'')]
         (Struct [SField ''Host'' True [(''env'', ''DB_HOST,required'')]
                    (Leaf TString (VString []))]))
      Map.empty None
     = (SField ''DB'' True [(''env'', ''DB,required'')]
         (Struct [SField ''Host'' True [(''env'', ''DB_HOST,required'')]
                    (Leaf TString (VString []))]),
        Map.empty, Some (JoinError [JoinError [RequiredNotFound ''DB_HOST'']]))"
proof -
  let ?htags = "[(''env'', ''DB_HOST,required'')]"
  let ?ptags = "[(''env'', ''PORT,default=8080'')]"
  let ?host = "SField ''Host'' True ?htags (Leaf TString (VString []))"
  let ?port = "SField ''Port'' True ?ptags (Leaf TInt (VInt 0))"
  let ?port' = "SField ''Port'' True ?ptags (Leaf TInt (VInt 3000))"
  let ?fs = "[SField ''Database'' True [] (Struct [?host]), ?port]"
  let ?envs = "[''PORT'' \<mapsto> ''3000'']"
  let ?e = "JoinError [JoinError [RequiredNotFound ''DB_HOST'']]"
  have W: "Tag initial = ''env''" "Separator initial = '';''" "strconv_IntSize initial = 64"
    by (simp_all add: initial_def)
  have tag: "Get ?htags (Tag initial) = ''DB_HOST,required''"
    "Get ?ptags (Tag initial) = ''PORT,default=8080''"
    by (simp_all add: Get_def W)
  have at: "field_at [0, 0] ?fs = Some ?host" "field_at [1] ?fs = Some ?port" by simp_all
  have del: "delete_at [0, 0] ?fs = [SField ''Database'' True [] (Struct []), ?port]"
    "delete_at [1] ?fs = [SField ''Database'' True [] (Struct [?host])]" by simp_all
  have inner: "unmarshalFields initial [?host] Map.empty None
      = ([?host], Map.empty, Some (JoinError [RequiredNotFound ''DB_HOST'']))"
    by (simp add: decoder_eval W parseTag_DB_HOST_required)
  have coerce: "set_val initial TInt (VInt 0) ''3000'' '';'' = (VInt 3000, None)"
    by (simp add: number_eval W)
  have keys: "''PORT'' \<notin> fieldKeys initial (delete_at [1] ?fs)"
    unfolding del by (simp add: tag parseTag_DB_HOST_required)
  note missing = required_field_missing [where W = initial and p = "[0, 0]" and fs = ?fs
      and name = "''Host''" and tags = ?htags and t = TString and v = "VString []"
      and envs = ?envs and uname = "''db''" and utags = "[]" and usub = "[?host]"
      and uenvs = Map.empty and uerr = None and ut = TString and uv = "VString []"
      and usub' = "[]" and uenvs' = Map.empty and ue = ErrInvalidValue]
  note unexported = required_field_missing [where W = initial and p = "[]" and fs = "[]"
      and name = "[]" and tags = "[]" and t = TString and v = "VString []"
      and envs = Map.empty and uname = "''host''" and utags = ?htags and usub = "[]"
      and uenvs = Map.empty and uerr = None and ut = TString and uv = "VString []"
      and usub' = "[]" and uenvs' = Map.empty and ue = ErrInvalidValue]
  note embedded = required_field_missing [where W = initial and p = "[]" and fs = "[]"
      and name = "[]" and tags = "[]" and t = TString and v = "VString []"
      and envs = Map.empty and uname = "''DB''" and utags = "[(''env'', ''DB,required'')]"
      and usub = "[?host]" and uenvs = Map.empty and uerr = None and ut = TString
      and uv = "VString []" and usub' = "[?host]" and uenvs' = Map.empty
      and ue = "JoinError [RequiredNotFound ''DB_HOST'']"]
  from missing at(1) obtain fs' envs' e e0 where
    run: "unmarshal initial ?envs (Pointer (Struct ?fs)) = (Pointer (Struct fs'), envs', Some e)"
    and leaf: "RequiredNotFound ''DB_HOST'' \<in> set (leaves e)"
    and same: "field_at [0, 0] fs' = Some ?host"
    and rest: "unmarshal initial ?envs (Pointer (Struct (delete_at [0, 0] ?fs)))
       = (Pointer (Struct (delete_at [0, 0] fs')), envs', e0)"
    and others: "\<And>q sname stags st sv ev sv'.
        field_at q ?fs = Some (SField sname True stags (Leaf st sv)) \<and>
        Get stags (Tag initial) \<noteq> [] \<and>
        effective (parseTag initial (Get stags (Tag initial))) ?envs = Some ev \<and>
        set_val initial st sv ev (Sep (parseTag initial (Get stags (Tag initial)))) = (sv', None) \<and>
        (?envs (Key (parseTag initial (Get stags (Tag initial)))) \<noteq> None \<longrightarrow>
           Key (parseTag initial (Get stags (Tag initial))) \<notin> fieldKeys initial (delete_at q ?fs)) \<Longrightarrow>
          field_at q fs' = Some (SField sname True stags (Leaf st sv'))"
    unfolding tag parseTag_DB_HOST_required
    by (auto simp del: unmarshal.simps unmarshalFields.simps unmarshalField.simps set_val.simps
        delete_at.simps field_at.simps fieldKeys.simps)
  have eff: "effective (parseTag initial ''PORT,default=8080'') ?envs = Some ''3000''"
    by (simp add: effective_def parseTag_PORT_default)
  from others [of "[1]" "''Port''" ?ptags TInt "VInt 0" "''3000''" "VInt 3000"]
    at(2) eff coerce keys
  have sibling: "field_at [1] fs' = Some ?port'"
    unfolding tag by (simp add: parseTag_PORT_default W del: set_val.simps delete_at.simps)
  have whole: "unmarshal initial ?envs (Pointer (Struct ?fs))
      = (Pointer (Struct [SField ''Database'' True [] (Struct [?host]), ?port']), Map.empty, Some ?e)"
    by (simp add: decoder_eval W parseTag_DB_HOST_required parseTag_PORT_default number_eval)
  with run have out: "fs' = [SField ''Database'' True [] (Struct [?host]), ?port']"
    "envs' = Map.empty" "e = ?e"
    by simp_all
  have without: "unmarshal initial ?envs (Pointer (Struct (delete_at [0, 0] ?fs)))
      = (Pointer (Struct [SField ''Database'' True [] (Struct []), ?port']), Map.empty, None)"
    by (simp add: decoder_eval W parseTag_PORT_default number_eval)
  from missing have skipped: "unmarshalField initial (SField ''db'' False [] (Struct [?host]))
      Map.empty None = (SField ''db'' False [] (Struct [?host]), Map.empty, None)"
    by (elim conjE)
  from unexported tag(1) have refused: "unmarshalField initial
      (SField ''host'' False ?htags (Leaf TString (VString []))) Map.empty None
     = (SField ''host'' False ?htags (Leaf TString (VString [])), Map.empty,
        Some (JoinError [FieldNotExported ''host'']))"
    by (elim conjE) (simp add: Join_def List.map_filter_simps
        del: unmarshalFields.simps unmarshalField.simps)
  from embedded inner have passed: "unmarshalField initial
      (SField ''DB'' True [(''env'', ''DB,required'')] (Struct [?host])) Map.empty None
     = (SField ''DB'' True [(''env'', ''DB,required'')] (Struct [?host]), Map.empty, Some ?e)"
    by (elim conjE) (simp add: Join_def List.map_filter_simps
        del: unmarshalFields.simps unmarshalField.simps)
  from leaf out have named: "RequiredNotFound ''DB_HOST'' \<in> set (leaves ?e)" by simp
  from whole named without skipped refused passed show ?thesis
    unfolding del by (intro conjI)
qed

theorem unexported_required_counterexample:
  "unmarshal initial Map.empty
      (Pointer (Struct
        [SField ''db'' False []
           (Struct [SField ''Host'' True [(''env'', ''DB_HOST,required'')]
                      (Leaf TString (VString []))]),
         SField ''Port'' True [(''env'', ''PORT,default=8080'')] (Leaf TInt (VInt 0))]))
     = (Pointer (Struct
        [SField ''db'' False []
           (Struct [SField ''Host'' True [(''env'', ''DB_HOST,required'')]
                      (Leaf TString (VString []))]),
         SField ''Port'' True [(''env'', ''PORT,default=8080'')] (Leaf TInt (VInt 8080))]),
        Map.empty, None) \<and>
   unmarshal initial Map.empty
      (Pointer (Struct [SField ''host'' False [(''env'', ''DB_HOST,required'')]
                         (Leaf TString (VString []))]))
     = (Pointer (Struct [SField ''host'' False [(''env'', ''DB_HOST,required'')]
                          (Leaf TString (VString []))]),
        Map.empty, Some (JoinError [FieldNotExported ''host''])) \<and>
   Required (parseTag initial ''DB_HOST,required'') \<and>
   Default (parseTag initial ''DB_HOST,required'') = [] \<and>
   Map.empty (Key (parseTag initial ''DB_HOST,required'')) = (None :: string option) \<and>
   unmarshal initial Map.empty
      (Pointer (Struct
        [SField ''DB'' True [(''env'', ''DB,required'')]
           (Struct [SField ''Host'' True [(''env'', ''DB_HOST,required'')]
                      (Leaf TString (VString []))])]))
     = (Pointer (Struct
        [SField ''DB'' True [(''env'', ''DB,required'')]
           (Struct [SField ''Host'' True [(''env'', ''DB_HOST,required'')]
                      (Leaf TString (VString []))])]),
        Map.empty, Some (JoinError [JoinError [RequiredNotFound ''DB_HOST'']])) \<and>
   RequiredNotFound ''DB''
     \<notin> set (leaves (JoinError [JoinError [RequiredNotFound ''DB_HOST'']])) \<and>
   Required (parseTag initial ''DB,required'') \<and>
   Default (parseTag initial ''DB,required'') = [] \<and>
   Map.empty (Key (parseTag initial ''DB,required'')) = (None :: string option)"
proof -
  have tag: "Tag initial = ''env''" "Separator initial = '';''"
    "strconv_IntSize initial = 64" by (simp_all add: initial_def)
  show ?thesis
    by (simp add: decoder_eval tag parseTag_DB_HOST_required parseTag_PORT_default
        parseTag_DB_required number_eval)
qed

section \<open>Consumed entries\<close>

lemma consumed_walk:
  assumes "field_at p fs = Some (SField name True tags (Leaf t v))"
    and "Get tags (Tag W) \<noteq> []"
    and "\<forall>ev. envs (Key (parseTag W (Get tags (Tag W)))) = Some ev \<longrightarrow>
           snd (set_val W t v ev (Sep (parseTag W (Get tags (Tag W))))) = None"
    and "unmarshalFields W fs envs err = (fs', envs', err')"
  shows "envs' (Key (parseTag W (Get tags (Tag W)))) = None"
  using assms(1,3,4)
proof (induction p arbitrary: fs envs err fs' envs' err')
  case Nil
  then show ?case by simp
next
  case (Cons i q)
  let ?g = "SField name True tags (Leaf t v)"
  let ?tf = "parseTag W (Get tags (Tag W))"
  let ?pre = "take i fs" and ?x = "fs ! i" and ?post = "drop (Suc i) fs"
  from Cons.prems(1) have i: "i < length fs"
    by (simp split: if_splits)
  obtain pre' e1 r1 where A: "unmarshalFields W ?pre envs err = (pre', e1, r1)"
    by (cases "unmarshalFields W ?pre envs err") auto
  obtain x' e2 r2 where B: "unmarshalField W ?x e1 r1 = (x', e2, r2)"
    by (cases "unmarshalField W ?x e1 r1") auto
  obtain post' e3 r3 where C: "unmarshalFields W ?post e2 r2 = (post', e3, r3)"
    by (cases "unmarshalFields W ?post e2 r2") auto
  from walk_at [OF i A B C] Cons.prems(3) have res: "envs' = e3" by simp
  from walk_grows [OF A] have le1: "e1 \<subseteq>\<^sub>m envs" by simp
  from walk_grows [OF C] have le3: "e3 \<subseteq>\<^sub>m e2" by simp
  have ok1: "\<forall>ev. e1 (Key ?tf) = Some ev \<longrightarrow> snd (set_val W t v ev (Sep ?tf)) = None"
    using Cons.prems(2) le1 by (auto dest: map_le_present)
  have "e2 (Key ?tf) = None"
  proof (cases "q = []")
    case True
    with Cons.prems(1) i have x: "?x = ?g" by simp
    show ?thesis
    proof (cases "e1 (Key ?tf)")
      case None
      from step_absent [where W = W and tags = tags and envs = e1, OF None, of name True t v r1]
        B x None
      show ?thesis by (simp del: unmarshalFields.simps unmarshalField.simps)
    next
      case (Some ev)
      with ok1 obtain v' where "set_val W t v ev (Sep ?tf) = (v', None)"
        by (cases "set_val W t v ev (Sep ?tf)") auto
      from step_explicit [where W = W and tags = tags and envs = e1, OF assms(2) Some this,
          of name r1] B x
      show ?thesis by (auto simp del: unmarshalFields.simps unmarshalField.simps)
    qed
  next
    case False
    with Cons.prems(1) i obtain n tg sub where x: "?x = SField n True tg (Struct sub)"
      and inner: "field_at q sub = Some ?g"
      by (cases "fs ! i"; cases "Content (fs ! i)") (auto split: if_splits)
    obtain sub1 es u where D: "unmarshalFields W sub e1 None = (sub1, es, u)"
      by (cases "unmarshalFields W sub e1 None") auto
    from Cons.IH [OF inner ok1 D] have "es (Key ?tf) = None" .
    with step_Struct_exported [OF D, of n tg r1] B x show ?thesis by auto
  qed
  with le3 res show ?case by (auto intro: map_le_absent)
qed

text \<open>
  C2.  For an annotated, settable field of a kind other than Struct with descriptor
  \<open>tf\<close>: when the mapping has an entry for its key and the entry coerces, processing
  the field assigns the value and removes exactly that key; when the mapping has no
  entry for its key (so that the field resolves through its default, or is skipped, or
  is reported missing), processing the field leaves the mapping as it is.  For a whole
  decode call: the key of a reached field whose entry coerces is gone from the mapping
  after the call, and the call changes the mapping only by removing keys that had an
  entry and are the key of some reached annotated field: no key without an explicit
  entry is ever touched.
\<close>

theorem explicit_entries_consumed:
  assumes "tf = parseTag W (Get tags (Tag W))" and "Get tags (Tag W) \<noteq> []"
  shows
  "(envs (Key tf) = Some ev \<and> set_val W t v ev (Sep tf) = (v', None) \<longrightarrow>
      unmarshalField W (SField name True tags (Leaf t v)) envs err
        = (SField name True tags (Leaf t v'), envs(Key tf := None), err)) \<and>
   (envs (Key tf) = None \<longrightarrow>
      fst (snd (unmarshalField W (SField name True tags (Leaf t v)) envs err)) = envs) \<and>
   (envs (Key tf) = None \<and> Default tf \<noteq> [] \<and>
    set_val W t v (Default tf) (Sep tf) = (v', None) \<longrightarrow>
      unmarshalField W (SField name True tags (Leaf t v)) envs err
        = (SField name True tags (Leaf t v'), envs, err)) \<and>
   (field_at p fs = Some (SField name True tags (Leaf t v)) \<and>
    envs (Key tf) = Some ev \<and> snd (set_val W t v ev (Sep tf)) = None \<longrightarrow>
      fst (snd (unmarshal W envs (Pointer (Struct fs)))) (Key tf) = None) \<and>
   (\<forall>k. fst (snd (unmarshal W envs (Pointer (Struct gs)))) k = envs k \<or>
        (envs k \<noteq> None \<and> k \<in> fieldKeys W gs \<and>
         fst (snd (unmarshal W envs (Pointer (Struct gs)))) k = None))"
proof (intro conjI impI allI)
  assume "envs (Key tf) = Some ev \<and> set_val W t v ev (Sep tf) = (v', None)"
  then show "unmarshalField W (SField name True tags (Leaf t v)) envs err
        = (SField name True tags (Leaf t v'), envs(Key tf := None), err)"
    using step_explicit [where W = W and tags = tags and envs = envs and ev = ev] assms by simp
next
  assume "envs (Key tf) = None"
  then show "fst (snd (unmarshalField W (SField name True tags (Leaf t v)) envs err)) = envs"
    using step_absent [where W = W and tags = tags and envs = envs] assms by simp
next
  assume "envs (Key tf) = None \<and> Default tf \<noteq> [] \<and>
    set_val W t v (Default tf) (Sep tf) = (v', None)"
  then show "unmarshalField W (SField name True tags (Leaf t v)) envs err
        = (SField name True tags (Leaf t v'), envs, err)"
    using step_default [where W = W and tags = tags and envs = envs] assms by simp
next
  assume a: "field_at p fs = Some (SField name True tags (Leaf t v)) \<and>
    envs (Key tf) = Some ev \<and> snd (set_val W t v ev (Sep tf)) = None"
  obtain fs' envs' err' where run: "unmarshalFields W fs envs None = (fs', envs', err')"
    by (cases "unmarshalFields W fs envs None") auto
  from a assms have ok: "\<forall>ev. envs (Key (parseTag W (Get tags (Tag W)))) = Some ev \<longrightarrow>
           snd (set_val W t v ev (Sep (parseTag W (Get tags (Tag W))))) = None"
    by simp
  from a have at: "field_at p fs = Some (SField name True tags (Leaf t v))" by simp
  from consumed_walk [OF at assms(2) ok run] assms(1) run
  show "fst (snd (unmarshal W envs (Pointer (Struct fs)))) (Key tf) = None" by simp
next
  fix k
  obtain gs' envs' err' where run: "unmarshalFields W gs envs None = (gs', envs', err')"
    by (cases "unmarshalFields W gs envs None") auto
  from walk_removes [OF run, of k] run
  show "fst (snd (unmarshal W envs (Pointer (Struct gs)))) k = envs k \<or>
        (envs k \<noteq> None \<and> k \<in> fieldKeys W gs \<and>
         fst (snd (unmarshal W envs (Pointer (Struct gs)))) k = None)"
    by auto
qed

theorem explicit_entries_consumed_witness:
  "unmarshalField initial
       (SField ''Port'' True [(''env'', ''PORT,default=8080'')] (Leaf TInt (VInt 0)))
       [''PORT'' \<mapsto> ''3000'', ''X'' \<mapsto> ''1''] None
     = (SField ''Port'' True [(''env'', ''PORT,default=8080'')] (Leaf TInt (VInt 3000)),
        [''PORT'' \<mapsto> ''3000'', ''X'' \<mapsto> ''1''](''PORT'' := None), None) \<and>
   unmarshalField initial
       (SField ''Port'' True [(''env'', ''PORT,default=8080'')] (Leaf TInt (VInt 0)))
       [''X'' \<mapsto> ''1''] None
     = (SField ''Port'' True [(''env'', ''PORT,default=8080'')] (Leaf TInt (VInt 8080)),
        [''X'' \<mapsto> ''1''], None) \<and>
   fst (snd (unmarshal initial [''PORT'' \<mapsto> ''3000'', ''X'' \<mapsto> ''1'']
     (Pointer (Struct
       [SField ''Server'' True []
          (Struct [SField ''Port'' True [(''env'', ''PORT,default=8080'')]
                     (Leaf TInt (VInt 0))])])))) ''PORT'' = None"
proof -
  let ?tags = "[(''env'', ''PORT,default=8080'')]"
  let ?tf = "\<lparr>Key = ''PORT'', Default = ''8080'', Required = False, Sep = '';''\<rparr>"
  let ?port = "SField ''Port'' True ?tags (Leaf TInt (VInt 0))"
  let ?fs = "[SField ''Server'' True [] (Struct [?port])]"
  let ?envs = "[''PORT'' \<mapsto> ''3000'', ''X'' \<mapsto> ''1'']"
  have tag: "Get ?tags (Tag initial) \<noteq> []" by (simp add: Get_def initial_def)
  have tf: "?tf = parseTag initial (Get ?tags (Tag initial))"
    by (simp add: Get_def parseTag_PORT_default) (simp add: initial_def)
  have c: "set_val initial TInt (VInt 0) ''3000'' '';'' = (VInt 3000, None)"
    "set_val initial TInt (VInt 0) ''8080'' '';'' = (VInt 8080, None)"
    by (simp_all add: number_eval initial_def)
  have at: "field_at [0, 0] ?fs = Some ?port" by simp
  note T = explicit_entries_consumed [OF tf tag, where t = TInt and v = "VInt 0"
      and name = "''Port''" and err = None]
  from T [where envs = ?envs and ev = "''3000''" and v' = "VInt 3000"] c(1)
  have one: "unmarshalField initial ?port ?envs None
      = (SField ''Port'' True ?tags (Leaf TInt (VInt 3000)), ?envs(''PORT'' := None), None)"
    by (simp del: unmarshalFields.simps unmarshalField.simps set_val.simps)
  from T [where envs = "[''X'' \<mapsto> ''1'']" and v' = "VInt 8080"] c(2)
  have two: "unmarshalField initial ?port [''X'' \<mapsto> ''1''] None
      = (SField ''Port'' True ?tags (Leaf TInt (VInt 8080)), [''X'' \<mapsto> ''1''], None)"
    by (simp del: unmarshalFields.simps unmarshalField.simps set_val.simps)
  from T [where envs = ?envs and ev = "''3000''" and p = "[0, 0]" and fs = ?fs] c(1) at
  have three: "fst (snd (unmarshal initial ?envs (Pointer (Struct ?fs)))) ''PORT'' = None"
    by (simp del: unmarshal.simps unmarshalFields.simps unmarshalField.simps set_val.simps
        field_at.simps)
  from one two three show ?thesis by blast
qed

end
